theory Spec2Isabelle
  imports Complex_Main "HOL-Library.Sublist"
begin

section \<open>Python string primitives used by the process module\<close>

text \<open>
  Python strings are modelled as \<^typ>\<open>string\<close>: lists of characters with code points
  below 256. The functions below follow the behaviour of the built-ins that
  \<^verbatim>\<open>miniapi/process/subprocess.py\<close> calls on strings: \<^verbatim>\<open>str.strip()\<close>,
  \<^verbatim>\<open>str.split()\<close>, \<^verbatim>\<open>str.split(sep)\<close>, \<^verbatim>\<open>sep.join(...)\<close>, \<^verbatim>\<open>str(int)\<close>,
  \<^verbatim>\<open>str(list)\<close> and \<^verbatim>\<open>shlex.split\<close>.
\<close>

definition NL :: char where
  "NL = CHR 0x0A"

definition TAB :: char where
  "TAB = CHR 0x09"

definition CR :: char where
  "CR = CHR 0x0D"

definition SQ :: char where
  "SQ = CHR 0x27"

definition DQ :: char where
  "DQ = CHR 0x22"

definition BSL :: char where
  "BSL = CHR 0x5C"

text \<open>\<^verbatim>\<open>str.isspace\<close> on one character, for the code points below 256.\<close>

definition is_space :: "char \<Rightarrow> bool" where
  "is_space c = (c \<in> set [CHR 0x09, CHR 0x0A, CHR 0x0B, CHR 0x0C, CHR 0x0D,
                            CHR 0x1C, CHR 0x1D, CHR 0x1E, CHR 0x1F, CHR 0x20,
                            CHR 0x85, CHR 0xA0])"

text \<open>\<^verbatim>\<open>s.strip()\<close>: whitespace removed at both ends.\<close>

definition strip :: "string \<Rightarrow> string" where
  "strip s = rev (dropWhile is_space (rev (dropWhile is_space s)))"

text \<open>\<^verbatim>\<open>s.split()\<close>: the maximal runs of non-whitespace characters, in order.\<close>

fun split_acc :: "string \<Rightarrow> string \<Rightarrow> string list" where
  "split_acc cur [] = (if cur = [] then [] else [cur])"
| "split_acc cur (c # cs) =
     (if is_space c then (if cur = [] then split_acc [] cs else cur # split_acc [] cs)
      else split_acc (cur @ [c]) cs)"

definition split_ws :: "string \<Rightarrow> string list" where
  "split_ws s = split_acc [] s"

text \<open>\<^verbatim>\<open>s.split(sep)\<close> for a one-character separator: empty fields are kept.\<close>

fun split_sep_acc :: "char \<Rightarrow> string \<Rightarrow> string \<Rightarrow> string list" where
  "split_sep_acc sep cur [] = [cur]"
| "split_sep_acc sep cur (c # cs) =
     (if c = sep then cur # split_sep_acc sep [] cs else split_sep_acc sep (cur @ [c]) cs)"

definition split_sep :: "char \<Rightarrow> string \<Rightarrow> string list" where
  "split_sep sep s = split_sep_acc sep [] s"

text \<open>\<^verbatim>\<open>sep.join(xs)\<close>.\<close>

fun join :: "string \<Rightarrow> string list \<Rightarrow> string" where
  "join sep [] = []"
| "join sep [x] = x"
| "join sep (x # y # ys) = x @ sep @ join sep (y # ys)"

text \<open>\<^verbatim>\<open>str(n)\<close> for an integer: decimal digits, with a minus sign when negative.\<close>

definition digit_char :: "nat \<Rightarrow> char" where
  "digit_char d = ''0123456789'' ! d"

function str_nat :: "nat \<Rightarrow> string" where
  "str_nat n = (if n < 10 then [digit_char n] else str_nat (n div 10) @ [digit_char (n mod 10)])"
  by pat_completeness auto
termination
  by (relation "measure id") auto

declare str_nat.simps [simp del]

definition str_int :: "int \<Rightarrow> string" where
  "str_int i = (if i < 0 then CHR ''-'' # str_nat (nat (- i)) else str_nat (nat i))"

text \<open>
  \<^verbatim>\<open>repr(s)\<close> of a string: single quotes unless the string holds a single quote and no
  double quote; the quote character and the backslash are escaped, tab, newline and
  carriage return are written \<^verbatim>\<open>\t\<close>, \<^verbatim>\<open>\n\<close>, \<^verbatim>\<open>\r\<close>, and every other
  non-printable code point is written \<^verbatim>\<open>\xNN\<close>.
\<close>

definition hex_char :: "nat \<Rightarrow> char" where
  "hex_char d = ''0123456789abcdef'' ! d"

definition is_printable :: "char \<Rightarrow> bool" where
  "is_printable c =
     (let n = (of_char c :: nat)
      in \<not> (n < 32 \<or> n = 127 \<or> (128 \<le> n \<and> n \<le> 160) \<or> n = 173))"

definition repr_char :: "char \<Rightarrow> char \<Rightarrow> string" where
  "repr_char q c =
     (if c = q \<or> c = BSL then [BSL, c]
      else if c = TAB then [BSL, CHR ''t'']
      else if c = NL then [BSL, CHR ''n'']
      else if c = CR then [BSL, CHR ''r'']
      else if \<not> is_printable c
        then [BSL, CHR ''x'', hex_char ((of_char c :: nat) div 16), hex_char ((of_char c :: nat) mod 16)]
      else [c])"

definition repr_str :: "string \<Rightarrow> string" where
  "repr_str s =
     (let q = (if SQ \<in> set s \<and> DQ \<notin> set s then DQ else SQ)
      in [q] @ concat (map (repr_char q) s) @ [q])"

definition str_list :: "string list \<Rightarrow> string" where
  "str_list xs = ''['' @ join '', '' (map repr_str xs) @ '']''"

subsection \<open>\<^verbatim>\<open>shlex.split\<close> in POSIX mode\<close>

text \<open>
  \<^verbatim>\<open>shlex.split(s)\<close> builds a lexer with \<^verbatim>\<open>posix=True\<close>, \<^verbatim>\<open>whitespace_split=True\<close>
  and no comment characters, and collects its tokens. The lexer state is \<^verbatim>\<open>' '\<close>
  (between tokens), \<^verbatim>\<open>'a'\<close> (inside a word), a quote character (inside quotes) or the
  escape character (after a backslash); \<^verbatim>\<open>escapedstate\<close> is the state to go back to
  after an escaped character. A token is emitted when it is non-empty or was quoted.
  The two \<^verbatim>\<open>ValueError\<close>s of the lexer are the \<open>Inl\<close> results.
\<close>

datatype lex_state = St_space | St_a | St_quote char | St_escape char

definition shlex_whitespace :: "char set" where
  "shlex_whitespace = set [CHR 0x20, TAB, CR, NL]"

definition shlex_quotes :: "char set" where
  "shlex_quotes = set [SQ, DQ]"

definition shlex_escape :: "char set" where
  "shlex_escape = set [BSL]"

definition shlex_escapedquotes :: "char set" where
  "shlex_escapedquotes = set [DQ]"

definition emit :: "string \<Rightarrow> string + string list \<Rightarrow> string + string list" where
  "emit t r = (case r of Inl e \<Rightarrow> Inl e | Inr ts \<Rightarrow> Inr (t # ts))"

fun read_tokens ::
  "lex_state \<Rightarrow> lex_state \<Rightarrow> string \<Rightarrow> bool \<Rightarrow> string \<Rightarrow> string + string list" where
  "read_tokens st esc tok quoted [] =
     (case st of
        St_quote q \<Rightarrow> Inl ''No closing quotation''
      | St_escape e \<Rightarrow> Inl ''No escaped character''
      | _ \<Rightarrow> Inr (if tok \<noteq> [] \<or> quoted then [tok] else []))"
| "read_tokens St_space esc tok quoted (c # cs) =
     (if c \<in> shlex_whitespace then
        (if tok \<noteq> [] \<or> quoted then emit tok (read_tokens St_space St_space [] False cs)
         else read_tokens St_space esc tok quoted cs)
      else if c \<in> shlex_escape then read_tokens (St_escape c) St_a tok quoted cs
      else if c \<in> shlex_quotes then read_tokens (St_quote c) esc tok quoted cs
      else read_tokens St_a esc [c] quoted cs)"
| "read_tokens (St_quote q) esc tok quoted (c # cs) =
     (if c = q then read_tokens St_a esc tok True cs
      else if c \<in> shlex_escape \<and> q \<in> shlex_escapedquotes
        then read_tokens (St_escape c) (St_quote q) tok True cs
      else read_tokens (St_quote q) esc (tok @ [c]) True cs)"
| "read_tokens (St_escape e) esc tok quoted (c # cs) =
     (let tok' = (case esc of
                    St_quote q \<Rightarrow> (if c \<noteq> e \<and> c \<noteq> q then tok @ [e] else tok)
                  | _ \<Rightarrow> tok)
      in read_tokens esc esc (tok' @ [c]) quoted cs)"
| "read_tokens St_a esc tok quoted (c # cs) =
     (if c \<in> shlex_whitespace then
        (if tok \<noteq> [] \<or> quoted then emit tok (read_tokens St_space St_space [] False cs)
         else read_tokens St_space esc tok quoted cs)
      else if c \<in> shlex_quotes then read_tokens (St_quote c) esc tok quoted cs
      else if c \<in> shlex_escape then read_tokens (St_escape c) St_a tok quoted cs
      else read_tokens St_a esc (tok @ [c]) quoted cs)"

definition shlex_split :: "string \<Rightarrow> string + string list" where
  "shlex_split s = read_tokens St_space St_space [] False s"

section \<open>Exceptions (\<^verbatim>\<open>miniapi/core/exceptions.py\<close>)\<close>

text \<open>
  The exception classes of the package. An exception object carries its class, its
  message, for \<^verbatim>\<open>ProcessError\<close> the \<^verbatim>\<open>command\<close> and \<^verbatim>\<open>exit_code\<close>
  attributes, and its \<^verbatim>\<open>__context__\<close>: the exception that was being handled when
  it was raised, which Python attaches to an exception raised inside an \<^verbatim>\<open>except\<close>
  clause.

  The exceptions that occur in the process module are the two that \<^verbatim>\<open>run_safe\<close>
  handles by name, the \<^verbatim>\<open>ValueError\<close> of \<^verbatim>\<open>shlex.split\<close>, an exception of the
  package itself, and any other exception, kept as its \<^verbatim>\<open>str(e)\<close>.
\<close>

datatype exn_class =
    MiniapiError | PlatformError | FileOperationError | ProcessError
  | ValidationError | ConfigurationError | NetworkError

datatype miniapi_exn =
    MiniapiException (exn_class: exn_class) (message: string) (exn_command: string)
      (exit_code: "int option") (exn_context: "py_exception option")
and py_exception =
    TimeoutExpired
  | FileNotFoundError
  | ValueError string
  | MiniapiExc miniapi_exn
  | OtherException string

text \<open>
  \<^verbatim>\<open>ProcessError(message, command, exit_code)\<close>. A new exception has no context; the
  \<^verbatim>\<open>raise\<close> statement sets it when it runs inside an \<^verbatim>\<open>except\<close> clause. The
  functions of the module are taken to be called outside any \<^verbatim>\<open>except\<close> clause of
  their caller.
\<close>

definition ProcessError_init :: "string \<Rightarrow> string \<Rightarrow> int option \<Rightarrow> miniapi_exn" where
  "ProcessError_init msg cmd code =
     MiniapiException ProcessError
       (if cmd \<noteq> []
        then ''An error occurred while executing the command '' @ [SQ] @ cmd @ [SQ]
             @ '': '' @ msg
        else msg)
       cmd code None"

definition with_context :: "py_exception \<Rightarrow> miniapi_exn \<Rightarrow> miniapi_exn" where
  "with_context handled x =
     MiniapiException (exn_class x) (message x) (exn_command x) (exit_code x) (Some handled)"

section \<open>The process module (\<^verbatim>\<open>miniapi/process/subprocess.py\<close>)\<close>

subsection \<open>Data\<close>

record CommandResult =
  success :: bool
  returncode :: int
  stdout :: string
  stderr :: string
  command :: string
  execution_time :: real
  pid :: "int option"

text \<open>The \<^verbatim>\<open>command\<close> argument: \<^verbatim>\<open>Union[str, List[str]]\<close>.\<close>

datatype cmd = CmdStr string | CmdList "string list"

text \<open>\<^verbatim>\<open>str(command)\<close>.\<close>

definition str_cmd :: "cmd \<Rightarrow> string" where
  "str_cmd c = (case c of CmdStr s \<Rightarrow> s | CmdList xs \<Rightarrow> str_list xs)"

text \<open>The keyword arguments of \<^verbatim>\<open>run_safe\<close>, with their defaults.\<close>

record run_opts =
  cwd :: "string option"
  env :: "(string \<times> string) list option"
  timeout :: "real option"
  capture_output :: bool
  shell :: bool
  encoding :: string
  errors :: string
  check :: bool

definition run_defaults :: run_opts where
  "run_defaults =
     \<lparr> cwd = None, env = None, timeout = None, capture_output = True, shell = False,
       encoding = ''utf-8'', errors = ''replace'', check = True \<rparr>"

text \<open>The \<^verbatim>\<open>kwargs\<close> dictionary handed to \<^verbatim>\<open>subprocess.run\<close>.\<close>

datatype stdio = PIPE | DEVNULL

record run_kwargs =
  kw_cwd :: "string option"
  kw_env :: "(string \<times> string) list option"
  kw_timeout :: "real option"
  kw_shell :: bool
  kw_stdout :: stdio
  kw_stderr :: stdio
  kw_text :: bool
  kw_encoding :: "string option"
  kw_errors :: "string option"

text \<open>
  The outcome of \<^verbatim>\<open>subprocess.run\<close>: a completed process with its return code, its
  \<^verbatim>\<open>stdout\<close> and \<^verbatim>\<open>stderr\<close> attributes (decoded text, or \<^verbatim>\<open>None\<close>) and its
  \<^verbatim>\<open>pid\<close> attribute when it has one, or an exception.
\<close>

datatype run_outcome =
    Completed int "string option" "string option" "int option"
  | Raises py_exception

text \<open>
  Everything outside the module that its functions read: the platform constant, the two
  readings of \<^verbatim>\<open>time.time()\<close> that \<^verbatim>\<open>run_safe\<close> takes, \<^verbatim>\<open>subprocess.run\<close>, the
  formatting of floating-point numbers (\<^verbatim>\<open>str(x)\<close> and \<^verbatim>\<open>format(x, '.2f')\<close>), the
  \<^verbatim>\<open>PATH\<close> variable, \<^verbatim>\<open>Path.is_file\<close> and the joining of two path components.
  \<^verbatim>\<open>Path.is_file\<close> answers with a boolean or raises: pathlib turns a missing file
  into \<^verbatim>\<open>False\<close> and lets every other \<^verbatim>\<open>OSError\<close> through, a
  \<^verbatim>\<open>PermissionError\<close> on an unreadable directory for one.
\<close>

record world =
  IS_WINDOWS :: bool
  time_first :: real
  time_second :: real
  subprocess_run :: "cmd \<Rightarrow> run_kwargs \<Rightarrow> run_outcome"
  str_float :: "real \<Rightarrow> string"
  format_2f :: "real \<Rightarrow> string"
  environ_PATH :: "string option"
  is_file :: "string \<Rightarrow> py_exception + bool"
  joinpath :: "string \<Rightarrow> string \<Rightarrow> string"

subsection \<open>\<^verbatim>\<open>CommandResult.raise_if_failed\<close>\<close>

definition raise_if_failed :: "CommandResult \<Rightarrow> py_exception + unit" where
  "raise_if_failed r =
     (if \<not> success r
      then Inl (MiniapiExc (ProcessError_init
             (''Command execution failed (code='' @ str_int (returncode r) @ ''): ''
                @ command r @ [NL] @ ''Error Output: '' @ stderr r) [] None))
      else Inr ())"

subsection \<open>\<^verbatim>\<open>run_safe\<close>\<close>

text \<open>The command arguments handed to \<^verbatim>\<open>subprocess.run\<close> (lines 76 to 91).\<close>

definition tokenize :: "world \<Rightarrow> cmd \<Rightarrow> bool \<Rightarrow> py_exception + cmd" where
  "tokenize w c sh =
     (case c of
        CmdStr s \<Rightarrow>
          (if sh then Inr (CmdStr s)
           else if IS_WINDOWS w then Inr (CmdList (split_ws s))
           else (case shlex_split s of
                   Inl m \<Rightarrow> Inl (ValueError m)
                 | Inr ts \<Rightarrow> Inr (CmdList ts)))
      | CmdList xs \<Rightarrow>
          (if sh then Inr (CmdStr (join '' '' xs)) else Inr (CmdList xs)))"

definition make_kwargs :: "run_opts \<Rightarrow> run_kwargs" where
  "make_kwargs opts =
     (if capture_output opts
      then \<lparr> kw_cwd = (case cwd opts of None \<Rightarrow> None | Some d \<Rightarrow> if d \<noteq> [] then Some d else None),
             kw_env = env opts, kw_timeout = timeout opts, kw_shell = shell opts,
             kw_stdout = PIPE, kw_stderr = PIPE, kw_text = True,
             kw_encoding = Some (encoding opts), kw_errors = Some (errors opts) \<rparr>
      else \<lparr> kw_cwd = (case cwd opts of None \<Rightarrow> None | Some d \<Rightarrow> if d \<noteq> [] then Some d else None),
             kw_env = env opts, kw_timeout = timeout opts, kw_shell = shell opts,
             kw_stdout = DEVNULL, kw_stderr = DEVNULL, kw_text = False,
             kw_encoding = None, kw_errors = None \<rparr>)"

text \<open>\<^verbatim>\<open>x.strip() if x else ""\<close> for an optional string.\<close>

definition strip_or_empty :: "string option \<Rightarrow> string" where
  "strip_or_empty x = (case x of None \<Rightarrow> [] | Some s \<Rightarrow> if s \<noteq> [] then strip s else [])"

text \<open>The body of the \<^verbatim>\<open>try\<close> block: \<open>Inl\<close> is an exception raised inside it.\<close>

definition run_safe_try :: "world \<Rightarrow> cmd \<Rightarrow> run_opts \<Rightarrow> py_exception + CommandResult" where
  "run_safe_try w c opts =
     (case tokenize w c (shell opts) of
        Inl e \<Rightarrow> Inl e
      | Inr cmd_args \<Rightarrow>
          (case subprocess_run w cmd_args (make_kwargs opts) of
             Raises e \<Rightarrow> Inl e
           | Completed rc out err p \<Rightarrow>
               (let result =
                      \<lparr> success = (rc = 0),
                        returncode = rc,
                        stdout = strip_or_empty (if capture_output opts then out else Some []),
                        stderr = strip_or_empty (if capture_output opts then err else Some []),
                        command = str_cmd c,
                        execution_time = time_second w - time_first w,
                        pid = p \<rparr>
                in if check opts \<and> \<not> success result
                   then (case raise_if_failed result of
                           Inl e \<Rightarrow> Inl e
                         | Inr u \<Rightarrow> Inr result)
                   else Inr result)))"

text \<open>
  The three \<^verbatim>\<open>except\<close> clauses, in the order of the source. Each raises a
  \<^verbatim>\<open>ProcessError\<close> while handling \<open>e\<close>, which becomes its context.
\<close>

definition str_timeout :: "world \<Rightarrow> real option \<Rightarrow> string" where
  "str_timeout w t = (case t of None \<Rightarrow> ''None'' | Some x \<Rightarrow> str_float w x)"

definition error_executing :: "cmd \<Rightarrow> py_exception \<Rightarrow> string \<Rightarrow> miniapi_exn" where
  "error_executing c e m =
     with_context e
       (ProcessError_init (''Error executing command '' @ str_cmd c @ '': '' @ m) [] None)"

definition run_safe_except :: "world \<Rightarrow> cmd \<Rightarrow> run_opts \<Rightarrow> py_exception \<Rightarrow> miniapi_exn" where
  "run_safe_except w c opts e =
     (case e of
        TimeoutExpired \<Rightarrow>
          with_context e
            (ProcessError_init
               (''Command execution timed out ('' @ str_timeout w (timeout opts) @ ''sec ): ''
                  @ str_cmd c @ [NL]
                  @ ''Elapsed Time: '' @ format_2f w (time_second w - time_first w) @ ''sec'')
               [] None)
      | FileNotFoundError \<Rightarrow>
          with_context e
            (ProcessError_init
               (''Command not found: '' @ str_cmd c @ [NL]
                  @ ''Please ensure the command is installed and in PATH'')
               [] None)
      | ValueError m \<Rightarrow> error_executing c e m
      | MiniapiExc x \<Rightarrow> error_executing c e (message x)
      | OtherException m \<Rightarrow> error_executing c e m)"

definition run_safe :: "world \<Rightarrow> cmd \<Rightarrow> run_opts \<Rightarrow> miniapi_exn + CommandResult" where
  "run_safe w c opts =
     (case run_safe_try w c opts of
        Inl e \<Rightarrow> Inl (run_safe_except w c opts e)
      | Inr r \<Rightarrow> Inr r)"

subsection \<open>\<^verbatim>\<open>run_capture\<close>\<close>

definition run_capture :: "world \<Rightarrow> cmd \<Rightarrow> run_opts \<Rightarrow> miniapi_exn + string" where
  "run_capture w c opts =
     (case run_safe w c (opts\<lparr>capture_output := True\<rparr>) of
        Inl e \<Rightarrow> Inl e
      | Inr result \<Rightarrow> Inr (strip (stdout result)))"

subsection \<open>\<^verbatim>\<open>command_exists\<close>\<close>

text \<open>The bare \<^verbatim>\<open>except\<close> turns every exception of \<^verbatim>\<open>run_safe\<close> into \<^verbatim>\<open>False\<close>.\<close>

definition command_exists :: "world \<Rightarrow> string \<Rightarrow> bool" where
  "command_exists w name =
     (if IS_WINDOWS w
      then (case run_safe w (CmdList [''where'', name])
                   (run_defaults\<lparr>capture_output := True, shell := True, check := False\<rparr>) of
              Inl e \<Rightarrow> False
            | Inr result \<Rightarrow> success result \<and> strip (stdout result) \<noteq> [])
      else (case run_safe w (CmdList [''which'', name])
                   (run_defaults\<lparr>capture_output := True, check := False\<rparr>) of
              Inl e \<Rightarrow> False
            | Inr result \<Rightarrow> success result))"

subsection \<open>\<^verbatim>\<open>find_executable\<close>\<close>

text \<open>
  The inner loop runs over the candidate names of one directory, the outer loop over the
  directories. \<^verbatim>\<open>exe_path.is_file()\<close> stands outside the \<^verbatim>\<open>try\<close>, so an exception
  it raises leaves \<^verbatim>\<open>find_executable\<close>: the \<open>Inl\<close> results. \<^verbatim>\<open>os.access\<close>
  returns a boolean that the code discards, so a candidate that is a file is returned at
  once.
\<close>

definition pathsep :: "world \<Rightarrow> char" where
  "pathsep w = (if IS_WINDOWS w then CHR '';'' else CHR '':'')"

definition possible_names :: "world \<Rightarrow> string \<Rightarrow> string list" where
  "possible_names w name =
     [name] @ (if IS_WINDOWS w then [name @ ''.exe'', name @ ''.bat'', name @ ''.cmd''] else [])"

fun find_in_dir :: "world \<Rightarrow> string \<Rightarrow> string list \<Rightarrow> py_exception + string option" where
  "find_in_dir w path_dir [] = Inr None"
| "find_in_dir w path_dir (possible_name # rest) =
     (let exe_path = joinpath w path_dir possible_name
      in case is_file w exe_path of
           Inl e \<Rightarrow> Inl e
         | Inr b \<Rightarrow> if b then Inr (Some exe_path) else find_in_dir w path_dir rest)"

fun find_in_paths :: "world \<Rightarrow> string list \<Rightarrow> string list \<Rightarrow> py_exception + string option" where
  "find_in_paths w [] names = Inr None"
| "find_in_paths w (path_dir # rest) names =
     (case find_in_dir w path_dir names of
        Inl e \<Rightarrow> Inl e
      | Inr (Some exe_path) \<Rightarrow> Inr (Some exe_path)
      | Inr None \<Rightarrow> find_in_paths w rest names)"

definition find_executable ::
  "world \<Rightarrow> string \<Rightarrow> string list option \<Rightarrow> py_exception + string option" where
  "find_executable w name paths =
     (let paths' = (case paths of
                      None \<Rightarrow> split_sep (pathsep w)
                                (case environ_PATH w of None \<Rightarrow> [] | Some p \<Rightarrow> p)
                    | Some ps \<Rightarrow> ps)
      in find_in_paths w paths' (possible_names w name))"

subsection \<open>The claim on output stripping, as the specification words it\<close>

text \<open>
  The specification describes the output fields as the captured text with the trailing
  whitespace removed and the leading content kept. This is that function, for comparison
  with what \<^verbatim>\<open>run_safe\<close> computes.
\<close>

definition spec_strip_trailing :: "string \<Rightarrow> string" where
  "spec_strip_trailing s = rev (dropWhile is_space (rev s))"

subsection \<open>A small environment for concrete runs\<close>

text \<open>
  A stand-in for \<^verbatim>\<open>subprocess.run\<close> on a POSIX machine with three programs:
  \<^verbatim>\<open>echo\<close> prints its arguments and a newline, \<^verbatim>\<open>false\<close> writes a line to stderr
  and exits with code 1, \<^verbatim>\<open>sleep\<close> outlives every timeout. No other program is
  installed, and there is no shell. Output is handed back only on a pipe.
\<close>

definition example_run :: "cmd \<Rightarrow> run_kwargs \<Rightarrow> run_outcome" where
  "example_run c kw =
     (case c of
        CmdStr s \<Rightarrow> Raises (OtherException ''no shell'')
      | CmdList [] \<Rightarrow> Raises (OtherException ''empty command'')
      | CmdList (x # args) \<Rightarrow>
          (if x = ''echo''
             then Completed 0 (if kw_stdout kw = PIPE then Some (join '' '' args @ [NL]) else None)
                              (if kw_stderr kw = PIPE then Some [] else None) None
           else if x = ''false''
             then Completed 1 (if kw_stdout kw = PIPE then Some [] else None)
                              (if kw_stderr kw = PIPE then Some (''boom'' @ [NL]) else None) None
           else if x = ''sleep'' \<and> kw_timeout kw \<noteq> None then Raises TimeoutExpired
           else if x = ''sleep'' then Completed 0 None None None
           else Raises FileNotFoundError))"

text \<open>
  The machine: the clock reads 10 and then 12, \<^verbatim>\<open>PATH\<close> holds two directories, and
  a file \<^verbatim>\<open>probe\<close> exists in \<^verbatim>\<open>/opt/bin\<close> and in \<^verbatim>\<open>/srv/bin\<close>.
\<close>

definition example_world :: world where
  "example_world =
     \<lparr> IS_WINDOWS = False, time_first = 10, time_second = 12,
       subprocess_run = example_run,
       str_float = (\<lambda>x. ''1.0''), format_2f = (\<lambda>x. ''2.00''),
       environ_PATH = Some ''/usr/bin:/opt/bin'',
       is_file = (\<lambda>p. Inr (p = ''/opt/bin/probe'' \<or> p = ''/srv/bin/probe'')),
       joinpath = (\<lambda>d n. d @ ''/'' @ n) \<rparr>"

text \<open>The same machine with its wall clock set back between the two readings.\<close>

definition clock_set_back_world :: world where
  "clock_set_back_world = example_world\<lparr>time_first := 12, time_second := 10\<rparr>"

text \<open>The default options with a timeout of one second.\<close>

definition timeout_opts :: run_opts where
  "timeout_opts = run_defaults\<lparr>timeout := Some 1\<rparr>"

text \<open>
  A machine with two directories: \<^verbatim>\<open>/t/locked\<close> cannot be searched, so that
  \<^verbatim>\<open>Path.is_file\<close> raises \<^verbatim>\<open>PermissionError\<close> on every path below it, and
  \<^verbatim>\<open>/t/open\<close> holds the file \<^verbatim>\<open>probe\<close>.
\<close>

definition locked_world :: world where
  "locked_world =
     example_world
       \<lparr> is_file := (\<lambda>p. if take 10 p = ''/t/locked/''
                         then Inl (OtherException ''[Errno 13] Permission denied'')
                         else Inr (p = ''/t/open/probe'')) \<rparr>"

text \<open>The same machine under Windows.\<close>

definition windows_world :: world where
  "windows_world = example_world\<lparr>IS_WINDOWS := True\<rparr>"

text \<open>
  The scan of a flat list of candidate paths, to say what the two nested loops compute: it
  stops at the first path on which \<^verbatim>\<open>Path.is_file\<close> raises or answers
  \<^verbatim>\<open>True\<close>.
\<close>

fun first_file :: "world \<Rightarrow> string list \<Rightarrow> py_exception + string option" where
  "first_file w [] = Inr None"
| "first_file w (p # ps) =
     (case is_file w p of
        Inl e \<Rightarrow> Inl e
      | Inr b \<Rightarrow> if b then Inr (Some p) else first_file w ps)"

subsection \<open>The quoting rules of \<^verbatim>\<open>shlex\<close>, stated on the structure of a command line\<close>

text \<open>
  A description of a command line that does not mention the lexer: a line is leading
  whitespace followed by words, each word followed by whitespace (the last one possibly by
  none). A word is a sequence of parts: a plain character, a backslash followed by any
  character, a text between single quotes, or a sequence between double quotes of
  characters and backslash pairs. \<open>render\<close> writes a line down as a string;
  \<open>denote\<close> is the argument a word stands for: quotes are removed, a backslash outside
  quotes gives the next character, and between double quotes a backslash is dropped only
  before a backslash or a double quote.
\<close>

datatype dq_part = DqChar char | DqEsc char

datatype word_part = Plain char | Escaped char | SingleQuoted string | DoubleQuoted "dq_part list"

fun render_dq :: "dq_part \<Rightarrow> string" where
  "render_dq (DqChar c) = [c]"
| "render_dq (DqEsc c) = [BSL, c]"

fun denote_dq :: "dq_part \<Rightarrow> string" where
  "denote_dq (DqChar c) = [c]"
| "denote_dq (DqEsc c) = (if c = BSL \<or> c = DQ then [c] else [BSL, c])"

fun wf_dq :: "dq_part \<Rightarrow> bool" where
  "wf_dq (DqChar c) = (c \<noteq> DQ \<and> c \<noteq> BSL)"
| "wf_dq (DqEsc c) = True"

fun render_part :: "word_part \<Rightarrow> string" where
  "render_part (Plain c) = [c]"
| "render_part (Escaped c) = [BSL, c]"
| "render_part (SingleQuoted t) = [SQ] @ t @ [SQ]"
| "render_part (DoubleQuoted ps) = [DQ] @ concat (map render_dq ps) @ [DQ]"

fun denote_part :: "word_part \<Rightarrow> string" where
  "denote_part (Plain c) = [c]"
| "denote_part (Escaped c) = [c]"
| "denote_part (SingleQuoted t) = t"
| "denote_part (DoubleQuoted ps) = concat (map denote_dq ps)"

fun wf_part :: "word_part \<Rightarrow> bool" where
  "wf_part (Plain c) = (c \<notin> shlex_whitespace \<and> c \<noteq> SQ \<and> c \<noteq> DQ \<and> c \<noteq> BSL)"
| "wf_part (Escaped c) = True"
| "wf_part (SingleQuoted t) = (SQ \<notin> set t)"
| "wf_part (DoubleQuoted ps) = list_all wf_dq ps"

fun part_quoted :: "word_part \<Rightarrow> bool" where
  "part_quoted (Plain c) = False"
| "part_quoted (Escaped c) = False"
| "part_quoted (SingleQuoted t) = True"
| "part_quoted (DoubleQuoted ps) = True"

definition render_word :: "word_part list \<Rightarrow> string" where
  "render_word parts = concat (map render_part parts)"

definition denote_word :: "word_part list \<Rightarrow> string" where
  "denote_word parts = concat (map denote_part parts)"

definition wf_word :: "word_part list \<Rightarrow> bool" where
  "wf_word parts = (parts \<noteq> [] \<and> list_all wf_part parts)"

definition all_whitespace :: "string \<Rightarrow> bool" where
  "all_whitespace s = list_all (\<lambda>c. c \<in> shlex_whitespace) s"

fun render_line :: "(word_part list \<times> string) list \<Rightarrow> string" where
  "render_line [] = []"
| "render_line ((parts, sep) # rest) = render_word parts @ sep @ render_line rest"

fun wf_line :: "(word_part list \<times> string) list \<Rightarrow> bool" where
  "wf_line [] = True"
| "wf_line ((parts, sep) # rest) =
     (wf_word parts \<and> all_whitespace sep \<and> (sep \<noteq> [] \<or> rest = []) \<and> wf_line rest)"

text \<open>
  The strings that are the rendering of a well-formed line, and the strings that can
  follow once the lexer is inside a word, inside single quotes or inside double quotes.
\<close>

definition line_form :: "string \<Rightarrow> bool" where
  "line_form s = (\<exists>lead items. all_whitespace lead \<and> wf_line items \<and> s = lead @ render_line items)"

definition tail_form :: "string \<Rightarrow> bool" where
  "tail_form s = (s = [] \<or> (\<exists>c rest. s = c # rest \<and> c \<in> shlex_whitespace \<and> line_form rest))"

definition word_rest_form :: "string \<Rightarrow> bool" where
  "word_rest_form s =
     (\<exists>parts t. list_all wf_part parts \<and> tail_form t \<and> s = render_word parts @ t)"

definition sq_rest_form :: "string \<Rightarrow> bool" where
  "sq_rest_form s = (\<exists>x t. SQ \<notin> set x \<and> word_rest_form t \<and> s = x @ SQ # t)"

definition dq_rest_form :: "string \<Rightarrow> bool" where
  "dq_rest_form s =
     (\<exists>ps t. list_all wf_dq ps \<and> word_rest_form t \<and> s = concat (map render_dq ps) @ DQ # t)"

text \<open>
  The shape of the input that remains in each state of the lexer; after a backslash it
  depends on the state to go back to.
\<close>

fun state_form :: "lex_state \<Rightarrow> lex_state \<Rightarrow> string \<Rightarrow> bool" where
  "state_form St_space esc s = line_form s"
| "state_form St_a esc s = word_rest_form s"
| "state_form (St_quote k) esc s =
     (if k = SQ then sq_rest_form s else if k = DQ then dq_rest_form s else True)"
| "state_form (St_escape e) esc s =
     (case esc of
        St_a \<Rightarrow> (\<exists>c rest. s = c # rest \<and> word_rest_form rest)
      | St_quote k \<Rightarrow> (if k = DQ then (\<exists>c rest. s = c # rest \<and> dq_rest_form rest) else True)
      | _ \<Rightarrow> True)"

text \<open>A line of two words, the second one between double quotes.\<close>

definition echo_line :: "(word_part list \<times> string) list" where
  "echo_line =
     [([Plain CHR ''e'', Plain CHR ''c'', Plain CHR ''h'', Plain CHR ''o''], '' ''),
      ([DoubleQuoted [DqChar CHR ''a'', DqChar CHR '' '', DqChar CHR ''b'']], [])]"

subsection \<open>Splitting on whitespace only, as the specification words it\<close>

text \<open>
  The tokens of a string split on whitespace only: skip the whitespace, take the longest
  run of characters that are not whitespace, and go on with what follows.
\<close>

function whitespace_runs :: "string \<Rightarrow> string list" where
  "whitespace_runs s =
     (case dropWhile is_space s of
        [] \<Rightarrow> []
      | c # cs \<Rightarrow> takeWhile (\<lambda>x. \<not> is_space x) (c # cs)
                  # whitespace_runs (dropWhile (\<lambda>x. \<not> is_space x) (c # cs)))"
  by pat_completeness auto
termination
proof (relation "measure length", goal_cases)
  case 1
  show ?case by simp
next
  case (2 s c cs)
  have "dropWhile is_space s \<noteq> []" using 2 by simp
  then have "\<not> is_space (hd (dropWhile is_space s))" by (rule hd_dropWhile)
  with 2 have "\<not> is_space c" by simp
  then have "length (dropWhile (\<lambda>x. \<not> is_space x) (c # cs)) \<le> length cs"
    by (simp add: length_dropWhile_le)
  moreover have "length (c # cs) \<le> length s"
    using length_dropWhile_le [of is_space s] 2 by simp
  ultimately show ?case by simp
qed

declare whitespace_runs.simps [simp del]

section \<open>Properties\<close>

subsection \<open>Unfolding rules for concrete runs\<close>

lemmas char_defs = NL_def TAB_def CR_def SQ_def DQ_def BSL_def

lemmas eval_defs =
  run_safe_def run_safe_try_def run_safe_except_def tokenize_def make_kwargs_def
  run_defaults_def raise_if_failed_def ProcessError_init_def error_executing_def
  strip_or_empty_def strip_def is_space_def str_cmd_def str_list_def repr_str_def
  repr_char_def is_printable_def str_timeout_def example_run_def example_world_def
  with_context_def Let_def

subsection \<open>Stripping\<close>

lemma dropWhile_id_hd: "xs = [] \<or> \<not> P (hd xs) \<Longrightarrow> dropWhile P xs = xs"
  by (cases xs) auto

lemma rstrip_prefix: "\<exists>v. t = rev (dropWhile P (rev t)) @ v"
proof -
  have "t = rev (takeWhile P (rev t) @ dropWhile P (rev t))" by simp
  also have "\<dots> = rev (dropWhile P (rev t)) @ rev (takeWhile P (rev t))"
    by (rule rev_append)
  finally show ?thesis by blast
qed

lemma strip_no_leading: "strip s = [] \<or> \<not> is_space (hd (strip s))"
proof (cases "strip s = []")
  case True
  then show ?thesis by simp
next
  case False
  define t where "t = dropWhile is_space s"
  obtain v where v: "t = strip s @ v"
    using rstrip_prefix [of t is_space] by (auto simp: strip_def t_def)
  from False v have "t \<noteq> []" by auto
  then have "\<not> is_space (hd t)" unfolding t_def by (rule hd_dropWhile)
  moreover from False v have "hd t = hd (strip s)" by (metis hd_append2)
  ultimately show ?thesis by simp
qed

lemma strip_idem: "strip (strip s) = strip s"
proof -
  have a: "dropWhile is_space (strip s) = strip s"
    using strip_no_leading [of s] by (rule dropWhile_id_hd)
  have "strip (strip s) = rev (dropWhile is_space (rev (strip s)))"
    by (simp add: a strip_def [of "strip s"])
  also have "\<dots> = rev (dropWhile is_space (dropWhile is_space (rev (dropWhile is_space s))))"
    by (simp add: strip_def)
  also have "\<dots> = strip s"
    by (simp add: strip_def)
  finally show ?thesis .
qed

lemma strip_Nil: "strip [] = []"
  by (simp add: strip_def)

lemma strip_strip_or_empty: "strip (strip_or_empty x) = strip_or_empty x"
  by (simp add: strip_or_empty_def strip_idem strip_Nil split: option.splits)

subsection \<open>The two ways out of \<^verbatim>\<open>run_safe\<close> after the process has completed\<close>

lemma run_safe_completed:
  assumes "tokenize w c (shell opts) = Inr cmd_args"
    and "subprocess_run w cmd_args (make_kwargs opts) = Completed rc out err p"
  shows "run_safe w c opts =
     (if check opts \<and> rc \<noteq> 0
      then Inl (error_executing c
             (MiniapiExc (ProcessError_init
                (''Command execution failed (code='' @ str_int rc @ ''): '' @ str_cmd c @ [NL]
                   @ ''Error Output: ''
                   @ strip_or_empty (if capture_output opts then err else Some [])) [] None))
             (''Command execution failed (code='' @ str_int rc @ ''): '' @ str_cmd c @ [NL]
                @ ''Error Output: '' @ strip_or_empty (if capture_output opts then err else Some [])))
      else Inr \<lparr> success = (rc = 0), returncode = rc,
                 stdout = strip_or_empty (if capture_output opts then out else Some []),
                 stderr = strip_or_empty (if capture_output opts then err else Some []),
                 command = str_cmd c,
                 execution_time = time_second w - time_first w,
                 pid = p \<rparr>)"
  using assms
  by (simp add: run_safe_def run_safe_try_def raise_if_failed_def run_safe_except_def
      ProcessError_init_def Let_def)

lemma run_safe_InrD:
  assumes "run_safe w c opts = Inr r"
  shows "\<exists>cmd_args rc out err p.
           tokenize w c (shell opts) = Inr cmd_args
         \<and> subprocess_run w cmd_args (make_kwargs opts) = Completed rc out err p
         \<and> (check opts \<longrightarrow> rc = 0)
         \<and> r = \<lparr> success = (rc = 0), returncode = rc,
                 stdout = strip_or_empty (if capture_output opts then out else Some []),
                 stderr = strip_or_empty (if capture_output opts then err else Some []),
                 command = str_cmd c,
                 execution_time = time_second w - time_first w,
                 pid = p \<rparr>"
proof (cases "tokenize w c (shell opts)")
  case (Inl e)
  with assms show ?thesis
    by (simp add: run_safe_def run_safe_try_def)
next
  case (Inr cmd_args)
  show ?thesis
  proof (cases "subprocess_run w cmd_args (make_kwargs opts)")
    case (Raises e)
    with Inr assms show ?thesis
      by (simp add: run_safe_def run_safe_try_def)
  next
    case (Completed rc out err p)
    from run_safe_completed [OF Inr Completed] assms Inr Completed
    show ?thesis
      by (auto split: if_splits)
  qed
qed

subsection \<open>Claims\<close>

text \<open>
  C1. Whenever \<^verbatim>\<open>run_safe\<close> returns a \<^verbatim>\<open>CommandResult\<close>, its \<^verbatim>\<open>success\<close> field
  equals \<^verbatim>\<open>returncode == 0\<close>, and \<^verbatim>\<open>returncode\<close> is the exit code of the process that
  \<^verbatim>\<open>subprocess.run\<close> ran on the tokenized command.
\<close>

theorem run_safe_success_iff_returncode:
  assumes "run_safe w c opts = Inr r"
  shows "success r = (returncode r = 0)
       \<and> (\<exists>cmd_args out err p.
            tokenize w c (shell opts) = Inr cmd_args
          \<and> subprocess_run w cmd_args (make_kwargs opts) = Completed (returncode r) out err p)"
  using run_safe_InrD [OF assms] by auto

theorem run_safe_success_iff_returncode_witness:
  "run_safe example_world (CmdList [''false'']) (run_defaults\<lparr>check := False\<rparr>)
     = Inr \<lparr> success = False, returncode = 1, stdout = [], stderr = ''boom'',
             command = ''['' @ [SQ] @ ''false'' @ [SQ] @ '']'', execution_time = 2, pid = None \<rparr>
   \<and> success \<lparr> success = False, returncode = 1, stdout = [], stderr = ''boom'',
             command = ''['' @ [SQ] @ ''false'' @ [SQ] @ '']'', execution_time = 2, pid = None \<rparr>
     = (returncode \<lparr> success = False, returncode = 1, stdout = [], stderr = ''boom'',
             command = ''['' @ [SQ] @ ''false'' @ [SQ] @ '']'', execution_time = 2, pid = None \<rparr> = 0)"
proof -
  have h: "run_safe example_world (CmdList [''false'']) (run_defaults\<lparr>check := False\<rparr>)
     = Inr \<lparr> success = False, returncode = 1, stdout = [], stderr = ''boom'',
             command = ''['' @ [SQ] @ ''false'' @ [SQ] @ '']'', execution_time = 2, pid = None \<rparr>"
    by (simp add: eval_defs char_defs)
  from run_safe_success_iff_returncode [OF h] h show ?thesis by simp
qed

text \<open>
  C4. A command given as a list of argument strings, with shell mode off, is handed to
  \<^verbatim>\<open>subprocess.run\<close> as that same list, on every platform.
\<close>

theorem tokenize_list_identity:
  "tokenize w (CmdList xs) False = Inr (CmdList xs)"
  by (simp add: tokenize_def)

subsection \<open>Concrete facts about the example machine\<close>

lemma str_int_1: "str_int 1 = ''1''"
  by (simp add: str_int_def str_nat.simps digit_char_def)

lemma strip_or_empty_Some: "strip_or_empty (Some s) = strip s"
  by (simp add: strip_or_empty_def strip_Nil)

lemma strip_or_empty_None: "strip_or_empty None = []"
  by (simp add: strip_or_empty_def)

lemma echo_hi_run:
  "run_safe example_world (CmdList [''echo'', ''  hi'']) run_defaults
     = Inr \<lparr> success = True, returncode = 0, stdout = ''hi'', stderr = [],
             command = ''['' @ [SQ] @ ''echo'' @ [SQ] @ '', '' @ [SQ] @ ''  hi'' @ [SQ] @ '']'',
             execution_time = 2, pid = None \<rparr>"
  by (simp add: eval_defs char_defs)

text \<open>
  C2. When the process completes with a non-zero exit code: with \<^verbatim>\<open>check\<close> on,
  \<^verbatim>\<open>run_safe\<close> raises a \<^verbatim>\<open>ProcessError\<close> whose message holds \<^verbatim>\<open>str(command)\<close>
  and the stderr field of the result; with \<^verbatim>\<open>check\<close> off, it returns a result whose
  \<^verbatim>\<open>success\<close> is false.
\<close>

theorem run_safe_nonzero_exit:
  assumes "tokenize w c (shell opts) = Inr cmd_args"
    and "subprocess_run w cmd_args (make_kwargs opts) = Completed rc out err p"
    and "rc \<noteq> 0"
  shows "(check opts \<longrightarrow>
            (\<exists>e. run_safe w c opts = Inl e
               \<and> exn_class e = ProcessError
               \<and> message e =
                   ''Error executing command '' @ str_cmd c
                     @ '': Command execution failed (code='' @ str_int rc @ ''): '' @ str_cmd c
                     @ [NL] @ ''Error Output: ''
                     @ strip_or_empty (if capture_output opts then err else Some [])))
       \<and> (\<not> check opts \<longrightarrow>
            (\<exists>r. run_safe w c opts = Inr r \<and> \<not> success r \<and> returncode r = rc))"
  using run_safe_completed [OF assms(1,2)] assms(3)
  by (simp add: error_executing_def ProcessError_init_def with_context_def)

theorem run_safe_nonzero_exit_witness:
  "tokenize example_world (CmdList [''false'']) (shell run_defaults) = Inr (CmdList [''false''])
   \<and> subprocess_run example_world (CmdList [''false'']) (make_kwargs run_defaults)
       = Completed 1 (Some []) (Some (''boom'' @ [NL])) None
   \<and> (1::int) \<noteq> 0
   \<and> check run_defaults
   \<and> map_sum message returncode (run_safe example_world (CmdList [''false'']) run_defaults)
       = Inl (''Error executing command ['' @ [SQ] @ ''false'' @ [SQ]
               @ '']: Command execution failed (code=1): ['' @ [SQ] @ ''false'' @ [SQ] @ '']''
               @ [NL] @ ''Error Output: boom'')
   \<and> \<not> check (run_defaults\<lparr>check := False\<rparr>)
   \<and> map_sum message returncode
        (run_safe example_world (CmdList [''false'']) (run_defaults\<lparr>check := False\<rparr>))
       = Inr 1"
proof -
  have t: "tokenize example_world (CmdList [''false'']) (shell run_defaults) = Inr (CmdList [''false''])"
    by (simp add: tokenize_def run_defaults_def)
  have s: "subprocess_run example_world (CmdList [''false'']) (make_kwargs run_defaults)
       = Completed 1 (Some []) (Some (''boom'' @ [NL])) None"
    by (simp add: example_world_def example_run_def make_kwargs_def run_defaults_def)
  have t': "tokenize example_world (CmdList [''false'']) (shell (run_defaults\<lparr>check := False\<rparr>))
       = Inr (CmdList [''false''])"
    by (simp add: tokenize_def run_defaults_def)
  have s': "subprocess_run example_world (CmdList [''false'']) (make_kwargs (run_defaults\<lparr>check := False\<rparr>))
       = Completed 1 (Some []) (Some (''boom'' @ [NL])) None"
    by (simp add: example_world_def example_run_def make_kwargs_def run_defaults_def)
  have n: "(1::int) \<noteq> 0" by simp
  have c: "check run_defaults" "\<not> check (run_defaults\<lparr>check := False\<rparr>)"
    by (simp_all add: run_defaults_def)
  have e: "strip_or_empty (Some (''boom'' @ [NL])) = ''boom''"
    by (simp add: strip_or_empty_def strip_def is_space_def NL_def)
  have q: "str_cmd (CmdList [''false'']) = ''['' @ [SQ] @ ''false'' @ [SQ] @ '']''"
    by (simp add: str_cmd_def str_list_def repr_str_def repr_char_def is_printable_def char_defs Let_def)
  have k: "capture_output run_defaults" by (simp add: run_defaults_def)
  from run_safe_nonzero_exit [OF t s n] run_safe_nonzero_exit [OF t' s' n] t s n c e q k str_int_1
  show ?thesis by auto
qed

text \<open>
  C8 (as the code has it). In a returned result, \<^verbatim>\<open>stdout\<close> and \<^verbatim>\<open>stderr\<close> are the
  text of the completed process with the whitespace removed at both ends, the leading
  whitespace included; both are empty when output is not captured. When output is
  captured, \<^verbatim>\<open>subprocess.run\<close> is given the configured encoding and error policy
  to decode with.
\<close>

theorem run_safe_output_fields:
  assumes "run_safe w c opts = Inr r"
  shows "\<exists>cmd_args out err p.
           tokenize w c (shell opts) = Inr cmd_args
         \<and> subprocess_run w cmd_args (make_kwargs opts) = Completed (returncode r) out err p
         \<and> stdout r = (if capture_output opts
                        then (case out of None \<Rightarrow> [] | Some s \<Rightarrow> strip s) else [])
         \<and> stderr r = (if capture_output opts
                        then (case err of None \<Rightarrow> [] | Some s \<Rightarrow> strip s) else [])
         \<and> kw_encoding (make_kwargs opts)
             = (if capture_output opts then Some (encoding opts) else None)
         \<and> kw_errors (make_kwargs opts)
             = (if capture_output opts then Some (errors opts) else None)"
proof -
  from run_safe_InrD [OF assms] obtain cmd_args rc out err p where
    t: "tokenize w c (shell opts) = Inr cmd_args"
    and s: "subprocess_run w cmd_args (make_kwargs opts) = Completed rc out err p"
    and r: "r = \<lparr> success = (rc = 0), returncode = rc,
                 stdout = strip_or_empty (if capture_output opts then out else Some []),
                 stderr = strip_or_empty (if capture_output opts then err else Some []),
                 command = str_cmd c,
                 execution_time = time_second w - time_first w,
                 pid = p \<rparr>"
    by blast
  have o: "stdout r = (if capture_output opts
                        then (case out of None \<Rightarrow> [] | Some s \<Rightarrow> strip s) else [])"
    by (simp add: r strip_or_empty_Some strip_or_empty_None strip_Nil split: option.splits)
  have e: "stderr r = (if capture_output opts
                        then (case err of None \<Rightarrow> [] | Some s \<Rightarrow> strip s) else [])"
    by (simp add: r strip_or_empty_Some strip_or_empty_None strip_Nil split: option.splits)
  have rc: "returncode r = rc" by (simp add: r)
  have k: "kw_encoding (make_kwargs opts)
             = (if capture_output opts then Some (encoding opts) else None)"
    "kw_errors (make_kwargs opts)
             = (if capture_output opts then Some (errors opts) else None)"
    by (simp_all add: make_kwargs_def)
  from t s o e rc k show ?thesis by blast
qed

theorem run_safe_output_fields_witness:
  "run_safe example_world (CmdList [''echo'', ''  hi'']) run_defaults
     = Inr \<lparr> success = True, returncode = 0, stdout = ''hi'', stderr = [],
             command = ''['' @ [SQ] @ ''echo'' @ [SQ] @ '', '' @ [SQ] @ ''  hi'' @ [SQ] @ '']'',
             execution_time = 2, pid = None \<rparr>
   \<and> subprocess_run example_world (CmdList [''echo'', ''  hi'']) (make_kwargs run_defaults)
       = Completed 0 (Some (''  hi'' @ [NL])) (Some []) None
   \<and> strip (''  hi'' @ [NL]) = ''hi''"
proof -
  have s: "subprocess_run example_world (CmdList [''echo'', ''  hi'']) (make_kwargs run_defaults)
       = Completed 0 (Some (''  hi'' @ [NL])) (Some []) None"
    by (simp add: example_world_def example_run_def make_kwargs_def run_defaults_def)
  have st: "strip (''  hi'' @ [NL]) = ''hi''"
    by (simp add: strip_def is_space_def NL_def)
  note u = run_safe_output_fields [OF echo_hi_run]
  from u echo_hi_run s st show ?thesis by simp
qed

text \<open>
  C8 as stated fails: \<^verbatim>\<open>echo\<close> prints two spaces, \<^verbatim>\<open>hi\<close> and a newline; removing
  only the trailing whitespace would keep the two spaces, and \<^verbatim>\<open>run_safe\<close> returns
  \<^verbatim>\<open>hi\<close>.
\<close>

theorem run_safe_strips_leading_counterexample:
  "subprocess_run example_world (CmdList [''echo'', ''  hi'']) (make_kwargs run_defaults)
       = Completed 0 (Some (''  hi'' @ [NL])) (Some []) None
   \<and> map_sum message stdout (run_safe example_world (CmdList [''echo'', ''  hi'']) run_defaults)
       = Inr ''hi''
   \<and> spec_strip_trailing (''  hi'' @ [NL]) = ''  hi''
   \<and> ''hi'' \<noteq> ''  hi''"
proof -
  have s: "subprocess_run example_world (CmdList [''echo'', ''  hi'']) (make_kwargs run_defaults)
       = Completed 0 (Some (''  hi'' @ [NL])) (Some []) None"
    by (simp add: example_world_def example_run_def make_kwargs_def run_defaults_def)
  have p: "spec_strip_trailing (''  hi'' @ [NL]) = ''  hi''"
    by (simp add: spec_strip_trailing_def is_space_def NL_def)
  from s p echo_hi_run show ?thesis by simp
qed

text \<open>
  C9 (as the code has it). \<^verbatim>\<open>execution_time\<close> is the second reading of
  \<^verbatim>\<open>time.time()\<close> minus the first; it is non-negative exactly when the wall clock has
  not gone back between the two readings.
\<close>

theorem run_safe_execution_time:
  assumes "run_safe w c opts = Inr r"
  shows "execution_time r = time_second w - time_first w
       \<and> (0 \<le> execution_time r) = (time_first w \<le> time_second w)"
  using run_safe_InrD [OF assms] by auto

theorem run_safe_execution_time_witness:
  "run_safe example_world (CmdList [''echo'', ''  hi'']) run_defaults
     = Inr \<lparr> success = True, returncode = 0, stdout = ''hi'', stderr = [],
             command = ''['' @ [SQ] @ ''echo'' @ [SQ] @ '', '' @ [SQ] @ ''  hi'' @ [SQ] @ '']'',
             execution_time = 2, pid = None \<rparr>
   \<and> time_second example_world - time_first example_world = 2
   \<and> time_first example_world \<le> time_second example_world"
  using run_safe_execution_time [OF echo_hi_run] echo_hi_run
  by (simp add: example_world_def)

text \<open>
  C9 as stated fails: on a machine whose wall clock is set back by two seconds during the
  run, the recorded \<^verbatim>\<open>execution_time\<close> is negative.
\<close>

theorem run_safe_negative_time_counterexample:
  "time_first clock_set_back_world = 12
   \<and> time_second clock_set_back_world = 10
   \<and> map_sum message execution_time
        (run_safe clock_set_back_world (CmdList [''echo'', ''  hi'']) run_defaults) = Inr (- 2)
   \<and> \<not> (0::real) \<le> - 2"
  by (simp add: clock_set_back_world_def eval_defs char_defs)

text \<open>
  C10. \<^verbatim>\<open>run_capture\<close> returns the \<^verbatim>\<open>stdout\<close> field of the result of \<^verbatim>\<open>run_safe\<close>
  with capture on, and raises what \<^verbatim>\<open>run_safe\<close> raises: its second \<^verbatim>\<open>strip\<close> changes
  nothing.
\<close>

theorem run_capture_is_stdout:
  "run_capture w c opts = map_sum id stdout (run_safe w c (opts\<lparr>capture_output := True\<rparr>))"
proof (cases "run_safe w c (opts\<lparr>capture_output := True\<rparr>)")
  case (Inl e)
  then show ?thesis by (simp add: run_capture_def)
next
  case (Inr r)
  from run_safe_InrD [OF Inr] have "strip (stdout r) = stdout r"
    by (auto simp: strip_strip_or_empty)
  with Inr show ?thesis by (simp add: run_capture_def)
qed

subsection \<open>Exceptions of \<^verbatim>\<open>run_safe\<close>\<close>

lemma run_safe_except_class: "exn_class (run_safe_except w c opts e) = ProcessError"
  by (cases e)
    (simp_all add: run_safe_except_def error_executing_def ProcessError_init_def
      with_context_def)

lemma run_safe_Inl_class:
  assumes "run_safe w c opts = Inl e"
  shows "exn_class e = ProcessError"
  using assms
  by (auto simp: run_safe_def run_safe_except_class split: sum.splits)

lemma run_safe_raises:
  assumes "tokenize w c (shell opts) = Inr cmd_args"
    and "subprocess_run w cmd_args (make_kwargs opts) = Raises x"
  shows "run_safe w c opts = Inl (run_safe_except w c opts x)"
  using assms by (simp add: run_safe_def run_safe_try_def)

lemma str_cmd_nope: "str_cmd (CmdList [''nope'']) = ''['' @ [SQ] @ ''nope'' @ [SQ] @ '']''"
  by (simp add: str_cmd_def str_list_def repr_str_def repr_char_def is_printable_def char_defs Let_def)

lemma str_cmd_sleep:
  "str_cmd (CmdList [''sleep'', ''5''])
     = ''['' @ [SQ] @ ''sleep'' @ [SQ] @ '', '' @ [SQ] @ ''5'' @ [SQ] @ '']''"
  by (simp add: str_cmd_def str_list_def repr_str_def repr_char_def is_printable_def char_defs Let_def)

text \<open>
  C3 (as the code has it). Every failure of \<^verbatim>\<open>run_safe\<close> is raised as the one class
  \<^verbatim>\<open>ProcessError\<close>, so the spawn failure (\<^verbatim>\<open>FileNotFoundError\<close>), the timeout and
  the non-zero exit under \<^verbatim>\<open>check\<close> are of the same error type. Each has its own
  message: the first names the command, the second carries \<^verbatim>\<open>str(timeout)\<close>, the
  command and the elapsed time formatted with two decimals, the third the command, the
  exit code and the stderr field. Each keeps the exception it was raised from as its
  context.
\<close>

theorem run_safe_error_messages:
  assumes "tokenize w c (shell opts) = Inr cmd_args"
  shows "(subprocess_run w cmd_args (make_kwargs opts) = Raises FileNotFoundError \<longrightarrow>
            run_safe w c opts =
              Inl (MiniapiException ProcessError
                    (''Command not found: '' @ str_cmd c @ [NL]
                              @ ''Please ensure the command is installed and in PATH'')
                    [] None (Some FileNotFoundError)))
       \<and> (subprocess_run w cmd_args (make_kwargs opts) = Raises TimeoutExpired \<longrightarrow>
            run_safe w c opts =
              Inl (MiniapiException ProcessError
                    (''Command execution timed out ('' @ str_timeout w (timeout opts)
                              @ ''sec ): '' @ str_cmd c @ [NL] @ ''Elapsed Time: ''
                              @ format_2f w (time_second w - time_first w) @ ''sec'')
                    [] None (Some TimeoutExpired)))
       \<and> (\<forall>rc out err p.
            subprocess_run w cmd_args (make_kwargs opts) = Completed rc out err p
            \<and> rc \<noteq> 0 \<and> check opts \<longrightarrow>
            run_safe w c opts =
              Inl (MiniapiException ProcessError
                    (''Error executing command '' @ str_cmd c
                              @ '': Command execution failed (code='' @ str_int rc @ ''): ''
                              @ str_cmd c @ [NL] @ ''Error Output: ''
                              @ strip_or_empty (if capture_output opts then err else Some []))
                    [] None (Some (MiniapiExc (MiniapiException ProcessError
                          (''Command execution failed (code='' @ str_int rc @ ''): ''
                           @ str_cmd c @ [NL] @ ''Error Output: ''
                           @ strip_or_empty (if capture_output opts then err else Some []))
                          [] None None)))))
       \<and> (\<forall>e. run_safe w c opts = Inl e \<longrightarrow> exn_class e = ProcessError)"
proof (intro conjI impI allI)
  assume "subprocess_run w cmd_args (make_kwargs opts) = Raises FileNotFoundError"
  from run_safe_raises [OF assms this]
  show "run_safe w c opts =
              Inl (MiniapiException ProcessError
                    (''Command not found: '' @ str_cmd c @ [NL]
                              @ ''Please ensure the command is installed and in PATH'')
                    [] None (Some FileNotFoundError))"
    by (simp add: run_safe_except_def ProcessError_init_def with_context_def)
next
  assume "subprocess_run w cmd_args (make_kwargs opts) = Raises TimeoutExpired"
  from run_safe_raises [OF assms this]
  show "run_safe w c opts =
              Inl (MiniapiException ProcessError
                    (''Command execution timed out ('' @ str_timeout w (timeout opts)
                              @ ''sec ): '' @ str_cmd c @ [NL] @ ''Elapsed Time: ''
                              @ format_2f w (time_second w - time_first w) @ ''sec'')
                    [] None (Some TimeoutExpired))"
    by (simp add: run_safe_except_def ProcessError_init_def with_context_def)
next
  fix rc out err p
  assume a: "subprocess_run w cmd_args (make_kwargs opts) = Completed rc out err p
            \<and> rc \<noteq> 0 \<and> check opts"
  then have s: "subprocess_run w cmd_args (make_kwargs opts) = Completed rc out err p" by simp
  from run_safe_completed [OF assms s] a
  show "run_safe w c opts =
              Inl (MiniapiException ProcessError
                    (''Error executing command '' @ str_cmd c
                              @ '': Command execution failed (code='' @ str_int rc @ ''): ''
                              @ str_cmd c @ [NL] @ ''Error Output: ''
                              @ strip_or_empty (if capture_output opts then err else Some []))
                    [] None (Some (MiniapiExc (MiniapiException ProcessError
                          (''Command execution failed (code='' @ str_int rc @ ''): ''
                           @ str_cmd c @ [NL] @ ''Error Output: ''
                           @ strip_or_empty (if capture_output opts then err else Some []))
                          [] None None))))"
    by (simp add: error_executing_def ProcessError_init_def with_context_def)
next
  fix e
  assume "run_safe w c opts = Inl e"
  then show "exn_class e = ProcessError" by (rule run_safe_Inl_class)
qed

theorem run_safe_error_messages_witness:
  "tokenize example_world (CmdList [''nope'']) (shell run_defaults) = Inr (CmdList [''nope''])
   \<and> subprocess_run example_world (CmdList [''nope'']) (make_kwargs run_defaults)
       = Raises FileNotFoundError
   \<and> run_safe example_world (CmdList [''nope'']) run_defaults
       = Inl (MiniapiException ProcessError
                    (''Command not found: ['' @ [SQ] @ ''nope'' @ [SQ] @ '']'' @ [NL]
                         @ ''Please ensure the command is installed and in PATH'')
                    [] None (Some FileNotFoundError))
   \<and> tokenize example_world (CmdList [''sleep'', ''5'']) (shell timeout_opts)
       = Inr (CmdList [''sleep'', ''5''])
   \<and> subprocess_run example_world (CmdList [''sleep'', ''5'']) (make_kwargs timeout_opts)
       = Raises TimeoutExpired
   \<and> run_safe example_world (CmdList [''sleep'', ''5'']) timeout_opts
       = Inl (MiniapiException ProcessError
                    (''Command execution timed out (1.0sec ): ['' @ [SQ] @ ''sleep'' @ [SQ]
                         @ '', '' @ [SQ] @ ''5'' @ [SQ] @ '']'' @ [NL]
                         @ ''Elapsed Time: 2.00sec'')
                    [] None (Some TimeoutExpired))"
proof -
  have t1: "tokenize example_world (CmdList [''nope'']) (shell run_defaults) = Inr (CmdList [''nope''])"
    by (simp add: tokenize_def run_defaults_def)
  have s1: "subprocess_run example_world (CmdList [''nope'']) (make_kwargs run_defaults)
       = Raises FileNotFoundError"
    by (simp add: example_world_def example_run_def)
  have t2: "tokenize example_world (CmdList [''sleep'', ''5'']) (shell timeout_opts)
       = Inr (CmdList [''sleep'', ''5''])"
    by (simp add: tokenize_def run_defaults_def timeout_opts_def)
  have s2: "subprocess_run example_world (CmdList [''sleep'', ''5'']) (make_kwargs timeout_opts)
       = Raises TimeoutExpired"
    by (simp add: example_world_def example_run_def timeout_opts_def make_kwargs_def run_defaults_def)
  have f: "str_timeout example_world (timeout timeout_opts) = ''1.0''"
    "format_2f example_world (time_second example_world - time_first example_world) = ''2.00''"
    by (simp_all add: str_timeout_def timeout_opts_def run_defaults_def example_world_def)
  note u1 = run_safe_error_messages [OF t1]
  note u2 = run_safe_error_messages [OF t2]
  from u1 s1 have r1: "run_safe example_world (CmdList [''nope'']) run_defaults
       = Inl (MiniapiException ProcessError
                    (''Command not found: '' @ str_cmd (CmdList [''nope'']) @ [NL]
                         @ ''Please ensure the command is installed and in PATH'')
                    [] None (Some FileNotFoundError))"
    by blast
  from u2 s2 have r2: "run_safe example_world (CmdList [''sleep'', ''5'']) timeout_opts
       = Inl (MiniapiException ProcessError
                    (''Command execution timed out ('' @ str_timeout example_world (timeout timeout_opts)
                              @ ''sec ): '' @ str_cmd (CmdList [''sleep'', ''5'']) @ [NL] @ ''Elapsed Time: ''
                              @ format_2f example_world (time_second example_world - time_first example_world) @ ''sec'')
                    [] None (Some TimeoutExpired))"
    by blast
  from t1 s1 t2 s2 r1 r2 show ?thesis
    by (simp add: f str_cmd_nope str_cmd_sleep)
qed

text \<open>
  C3 as stated fails: a missing executable, a non-zero exit and a timeout raise exceptions
  of the same class, so the type does not tell them apart.
\<close>

theorem run_safe_one_error_class_counterexample:
  "subprocess_run example_world (CmdList [''nope'']) (make_kwargs run_defaults)
     = Raises FileNotFoundError
   \<and> subprocess_run example_world (CmdList [''false'']) (make_kwargs run_defaults)
     = Completed 1 (Some []) (Some (''boom'' @ [NL])) None
   \<and> subprocess_run example_world (CmdList [''sleep'', ''5'']) (make_kwargs timeout_opts)
     = Raises TimeoutExpired
   \<and> map_sum exn_class returncode (run_safe example_world (CmdList [''nope'']) run_defaults)
     = Inl ProcessError
   \<and> map_sum exn_class returncode (run_safe example_world (CmdList [''false'']) run_defaults)
     = Inl ProcessError
   \<and> map_sum exn_class returncode (run_safe example_world (CmdList [''sleep'', ''5'']) timeout_opts)
     = Inl ProcessError"
  by (simp add: timeout_opts_def eval_defs char_defs)

subsection \<open>Searching the path\<close>

lemma first_file_append:
  "first_file w (xs @ ys)
     = (case first_file w xs of
          Inl e \<Rightarrow> Inl e
        | Inr (Some p) \<Rightarrow> Inr (Some p)
        | Inr None \<Rightarrow> first_file w ys)"
  by (induction xs) (simp_all split: sum.splits)

lemma find_in_dir_first_file:
  "find_in_dir w d names = first_file w (map (joinpath w d) names)"
  by (induction names) (simp_all add: Let_def split: sum.splits)

lemma find_in_paths_first_file:
  "find_in_paths w dirs names
     = first_file w (concat (map (\<lambda>d. map (joinpath w d) names) dirs))"
  by (induction dirs)
    (simp_all add: first_file_append find_in_dir_first_file split: sum.splits option.splits)

lemma first_file_hit:
  assumes "\<forall>p\<in>set pre. is_file w p = Inr False" and "is_file w x = Inr True"
  shows "first_file w (pre @ x # post) = Inr (Some x)"
  using assms by (induction pre) simp_all

lemma first_file_miss:
  assumes "\<forall>p\<in>set ps. is_file w p = Inr False"
  shows "first_file w ps = Inr None"
  using assms by (induction ps) simp_all

lemma first_file_raise:
  assumes "\<forall>p\<in>set pre. is_file w p = Inr False" and "is_file w x = Inl e"
  shows "first_file w (pre @ x # post) = Inl e"
  using assms by (induction pre) simp_all


lemma find_executable_Some:
  "find_executable w name (Some paths)
     = first_file w
         (concat (map (\<lambda>d. map (joinpath w d)
                              (if IS_WINDOWS w
                               then [name, name @ ''.exe'', name @ ''.bat'', name @ ''.cmd'']
                               else [name]))
                      paths))"
  by (simp add: find_executable_def find_in_paths_first_file possible_names_def)

lemma find_executable_raises:
  assumes "concat (map (\<lambda>d. map (joinpath w d)
                              (if IS_WINDOWS w
                               then [name, name @ ''.exe'', name @ ''.bat'', name @ ''.cmd'']
                               else [name]))
                      paths) = pre @ x # post"
    and "\<forall>p\<in>set pre. is_file w p = Inr False"
    and "is_file w x = Inl e"
  shows "find_executable w name (Some paths) = Inl e"
  using first_file_raise [OF assms(2,3)] assms(1)
  by (simp add: find_executable_Some)

text \<open>
  C6 (as the code has it). \<^verbatim>\<open>find_executable\<close> examines the candidates directory by
  directory in the order of the search list and, within a directory, the bare name first
  and then, on Windows, the extensions \<^verbatim>\<open>.exe\<close>, \<^verbatim>\<open>.bat\<close>, \<^verbatim>\<open>.cmd\<close>. When
  \<^verbatim>\<open>Path.is_file\<close> answers \<^verbatim>\<open>False\<close> on every candidate before the first one that
  is a file, that first file is returned; when it answers \<^verbatim>\<open>False\<close> on every
  candidate, \<^verbatim>\<open>None\<close> is returned. Without a search list the directories are those
  of \<^verbatim>\<open>PATH\<close>. A file of that name in the first directory is returned whatever the
  later directories hold.
\<close>

theorem find_executable_first_match:
  "(concat (map (\<lambda>d. map (joinpath w d)
                         (if IS_WINDOWS w
                          then [name, name @ ''.exe'', name @ ''.bat'', name @ ''.cmd'']
                          else [name]))
                 paths) = pre @ x # post
      \<and> (\<forall>p\<in>set pre. is_file w p = Inr False) \<and> is_file w x = Inr True
    \<longrightarrow> find_executable w name (Some paths) = Inr (Some x))
   \<and> ((\<forall>p\<in>set (concat (map (\<lambda>d. map (joinpath w d)
                                   (if IS_WINDOWS w
                                    then [name, name @ ''.exe'', name @ ''.bat'', name @ ''.cmd'']
                                    else [name]))
                           paths)). is_file w p = Inr False)
    \<longrightarrow> find_executable w name (Some paths) = Inr None)
   \<and> find_executable w name None
     = find_executable w name
         (Some (split_sep (if IS_WINDOWS w then CHR '';'' else CHR '':'')
                  (case environ_PATH w of None \<Rightarrow> [] | Some p \<Rightarrow> p)))
   \<and> (is_file w (joinpath w dirA name) = Inr True \<longrightarrow>
        find_executable w name (Some (dirA # rest)) = Inr (Some (joinpath w dirA name)))"
proof (intro conjI impI)
  let ?cands = "concat (map (\<lambda>d. map (joinpath w d)
                         (if IS_WINDOWS w
                          then [name, name @ ''.exe'', name @ ''.bat'', name @ ''.cmd'']
                          else [name]))
                 paths)"
  assume a: "?cands = pre @ x # post
      \<and> (\<forall>p\<in>set pre. is_file w p = Inr False) \<and> is_file w x = Inr True"
  then have "first_file w (pre @ x # post) = Inr (Some x)"
    by (intro first_file_hit) simp_all
  with a show "find_executable w name (Some paths) = Inr (Some x)"
    by (simp add: find_executable_Some)
next
  let ?cands = "concat (map (\<lambda>d. map (joinpath w d)
                         (if IS_WINDOWS w
                          then [name, name @ ''.exe'', name @ ''.bat'', name @ ''.cmd'']
                          else [name]))
                 paths)"
  assume "\<forall>p\<in>set ?cands. is_file w p = Inr False"
  then have "first_file w ?cands = Inr None" by (rule first_file_miss)
  then show "find_executable w name (Some paths) = Inr None"
    by (simp add: find_executable_Some)
next
  show "find_executable w name None
     = find_executable w name
         (Some (split_sep (if IS_WINDOWS w then CHR '';'' else CHR '':'')
                  (case environ_PATH w of None \<Rightarrow> [] | Some p \<Rightarrow> p)))"
    by (simp add: find_executable_def pathsep_def)
next
  assume "is_file w (joinpath w dirA name) = Inr True"
  then show "find_executable w name (Some (dirA # rest)) = Inr (Some (joinpath w dirA name))"
    by (simp add: find_executable_def possible_names_def Let_def)
qed

theorem find_executable_first_match_witness:
  "is_file example_world ''/usr/bin/probe'' = Inr False
   \<and> is_file example_world ''/opt/bin/probe'' = Inr True
   \<and> find_executable example_world ''probe'' (Some [''/usr/bin'', ''/opt/bin''])
       = Inr (Some ''/opt/bin/probe'')
   \<and> is_file example_world ''/usr/bin/nothing'' = Inr False
   \<and> is_file example_world ''/opt/bin/nothing'' = Inr False
   \<and> find_executable example_world ''nothing'' (Some [''/usr/bin'', ''/opt/bin'']) = Inr None
   \<and> is_file example_world (joinpath example_world ''/srv/bin'' ''probe'') = Inr True
   \<and> find_executable example_world ''probe'' (Some [''/srv/bin'', ''/opt/bin''])
       = Inr (Some ''/srv/bin/probe'')"
proof -
  have f: "is_file example_world ''/usr/bin/probe'' = Inr False"
    "is_file example_world ''/opt/bin/probe'' = Inr True"
    "is_file example_world ''/usr/bin/nothing'' = Inr False"
    "is_file example_world ''/opt/bin/nothing'' = Inr False"
    "is_file example_world (joinpath example_world ''/srv/bin'' ''probe'') = Inr True"
    by (simp_all add: example_world_def)
  have j: "joinpath example_world ''/srv/bin'' ''probe'' = ''/srv/bin/probe''"
    by (simp add: example_world_def)
  have c1: "concat (map (\<lambda>d. map (joinpath example_world d)
                         (if IS_WINDOWS example_world
                          then [''probe'', ''probe'' @ ''.exe'', ''probe'' @ ''.bat'',
                                ''probe'' @ ''.cmd'']
                          else [''probe'']))
                 [''/usr/bin'', ''/opt/bin''])
            = [''/usr/bin/probe''] @ ''/opt/bin/probe'' # []"
    by (simp add: example_world_def)
  have c2: "concat (map (\<lambda>d. map (joinpath example_world d)
                         (if IS_WINDOWS example_world
                          then [''nothing'', ''nothing'' @ ''.exe'', ''nothing'' @ ''.bat'',
                                ''nothing'' @ ''.cmd'']
                          else [''nothing'']))
                 [''/usr/bin'', ''/opt/bin''])
            = [''/usr/bin/nothing'', ''/opt/bin/nothing'']"
    by (simp add: example_world_def)
  note u1 = find_executable_first_match
    [of example_world "''probe''" "[''/usr/bin'', ''/opt/bin'']" "[''/usr/bin/probe'']"
        "''/opt/bin/probe''" "[]" "''/srv/bin''" "[''/opt/bin'']"]
  note u2 = find_executable_first_match
    [of example_world "''nothing''" "[''/usr/bin'', ''/opt/bin'']" "[]" "[]" "[]" "[]" "[]"]
  have a1: "\<forall>p\<in>set [''/usr/bin/probe'']. is_file example_world p = Inr False"
    by (simp add: f)
  from u1 c1 a1 f(2) have r1: "find_executable example_world ''probe'' (Some [''/usr/bin'', ''/opt/bin''])
       = Inr (Some ''/opt/bin/probe'')"
    by blast
  have a2: "\<forall>p\<in>set (concat (map (\<lambda>d. map (joinpath example_world d)
                         (if IS_WINDOWS example_world
                          then [''nothing'', ''nothing'' @ ''.exe'', ''nothing'' @ ''.bat'',
                                ''nothing'' @ ''.cmd'']
                          else [''nothing'']))
                 [''/usr/bin'', ''/opt/bin''])). is_file example_world p = Inr False"
    by (subst c2) (simp add: f)
  from u2 a2 have r2: "find_executable example_world ''nothing'' (Some [''/usr/bin'', ''/opt/bin''])
       = Inr None"
    by blast
  from u1 f have r3: "find_executable example_world ''probe'' (Some [''/srv/bin'', ''/opt/bin''])
       = Inr (Some (joinpath example_world ''/srv/bin'' ''probe''))"
    by blast
  from f r1 r2 r3 show ?thesis by (simp add: j)
qed

text \<open>
  C6 as stated fails: when the first directory cannot be searched, \<^verbatim>\<open>Path.is_file\<close>
  raises on its candidate and \<^verbatim>\<open>find_executable\<close> raises with it, although the second
  directory holds the file.
\<close>

theorem find_executable_raises_counterexample:
  "is_file locked_world ''/t/locked/probe'' = Inl (OtherException ''[Errno 13] Permission denied'')
   \<and> is_file locked_world ''/t/open/probe'' = Inr True
   \<and> find_executable locked_world ''probe'' (Some [''/t/locked'', ''/t/open''])
       = Inl (OtherException ''[Errno 13] Permission denied'')"
  by (simp add: locked_world_def example_world_def find_executable_def possible_names_def)

subsection \<open>Looking a command up\<close>

text \<open>
  C7 (as the code has it). \<^verbatim>\<open>command_exists\<close> is true exactly when the lookup helper
  (\<^verbatim>\<open>which\<close>; on Windows \<^verbatim>\<open>where\<close> through the shell) completes with exit code 0,
  on Windows with a non-blank output as well. The file system and \<^verbatim>\<open>PATH\<close> play no
  part: when the helper cannot be run the answer is \<^verbatim>\<open>False\<close>.
\<close>

theorem command_exists_iff:
  "command_exists w name =
     (if IS_WINDOWS w
      then (\<exists>out err p.
              subprocess_run w (CmdStr (''where '' @ name))
                (make_kwargs (run_defaults\<lparr>capture_output := True, shell := True, check := False\<rparr>))
                = Completed 0 out err p
            \<and> strip_or_empty out \<noteq> [])
      else (\<exists>out err p.
              subprocess_run w (CmdList [''which'', name])
                (make_kwargs (run_defaults\<lparr>capture_output := True, check := False\<rparr>))
                = Completed 0 out err p))"
proof (cases "IS_WINDOWS w")
  case True
  let ?opts = "run_defaults\<lparr>capture_output := True, shell := True, check := False\<rparr>"
  have t: "tokenize w (CmdList [''where'', name]) (shell ?opts) = Inr (CmdStr (''where '' @ name))"
    by (simp add: tokenize_def run_defaults_def)
  have c: "\<not> check ?opts" "capture_output ?opts" by (simp_all add: run_defaults_def)
  show ?thesis
  proof (cases "subprocess_run w (CmdStr (''where '' @ name)) (make_kwargs ?opts)")
    case (Completed rc out err p)
    from run_safe_completed [OF t Completed] c Completed True
    show ?thesis
      by (simp add: command_exists_def strip_strip_or_empty)
  next
    case (Raises x)
    from run_safe_raises [OF t Raises] Raises True
    show ?thesis
      by (simp add: command_exists_def)
  qed
next
  case False
  let ?opts = "run_defaults\<lparr>capture_output := True, check := False\<rparr>"
  have t: "tokenize w (CmdList [''which'', name]) (shell ?opts) = Inr (CmdList [''which'', name])"
    by (simp add: tokenize_def run_defaults_def)
  have c: "\<not> check ?opts" by (simp add: run_defaults_def)
  show ?thesis
  proof (cases "subprocess_run w (CmdList [''which'', name]) (make_kwargs ?opts)")
    case (Completed rc out err p)
    from run_safe_completed [OF t Completed] c Completed False
    show ?thesis
      by (simp add: command_exists_def)
  next
    case (Raises x)
    from run_safe_raises [OF t Raises] Raises False
    show ?thesis
      by (simp add: command_exists_def)
  qed
qed

text \<open>
  C7 as stated fails: on a machine without \<^verbatim>\<open>which\<close>, where \<^verbatim>\<open>find_executable\<close>
  finds \<^verbatim>\<open>probe\<close> on the path, \<^verbatim>\<open>command_exists\<close> answers \<^verbatim>\<open>False\<close>.
\<close>

theorem command_exists_no_fallback_counterexample:
  "subprocess_run example_world (CmdList [''which'', ''probe''])
     (make_kwargs (run_defaults\<lparr>capture_output := True, check := False\<rparr>))
       = Raises FileNotFoundError
   \<and> find_executable example_world ''probe'' None = Inr (Some ''/opt/bin/probe'')
   \<and> \<not> command_exists example_world ''probe''"
proof -
  have s: "subprocess_run example_world (CmdList [''which'', ''probe''])
     (make_kwargs (run_defaults\<lparr>capture_output := True, check := False\<rparr>))
       = Raises FileNotFoundError"
    by (simp add: example_world_def example_run_def)
  have f: "find_executable example_world ''probe'' None = Inr (Some ''/opt/bin/probe'')"
    by (simp add: find_executable_def example_world_def pathsep_def possible_names_def
        split_sep_def)
  have c: "\<not> command_exists example_world ''probe''"
    by (simp add: command_exists_def eval_defs)
  from s f c show ?thesis by simp
qed

subsection \<open>Tokenizing a command string\<close>

lemma shlex_split_examples:
  "shlex_split (''echo '' @ [DQ] @ ''a b'' @ [DQ] @ '' '' @ [SQ] @ ''c d'' @ [SQ] @ '' e''
                 @ [BSL] @ '' f '' @ [DQ, DQ])
     = Inr [''echo'', ''a b'', ''c d'', ''e f'', []]"
  "shlex_split (''a '' @ [SQ] @ ''b'') = Inl ''No closing quotation''"
  "shlex_split (''a '' @ [BSL]) = Inl ''No escaped character''"
  "shlex_split (''  x   y '') = Inr [''x'', ''y'']"
  by (simp_all add: shlex_split_def emit_def shlex_whitespace_def shlex_quotes_def
      shlex_escape_def shlex_escapedquotes_def char_defs)

lemma shlex_char_facts:
  "SQ \<notin> shlex_whitespace" "DQ \<notin> shlex_whitespace" "BSL \<notin> shlex_whitespace"
  "SQ \<in> shlex_quotes" "DQ \<in> shlex_quotes" "BSL \<notin> shlex_quotes"
  "SQ \<notin> shlex_escape" "DQ \<notin> shlex_escape" "BSL \<in> shlex_escape"
  "SQ \<notin> shlex_escapedquotes" "DQ \<in> shlex_escapedquotes"
  "SQ \<noteq> DQ" "SQ \<noteq> BSL" "DQ \<noteq> BSL" "DQ \<noteq> SQ" "BSL \<noteq> SQ" "BSL \<noteq> DQ"
  by (simp_all add: shlex_whitespace_def shlex_quotes_def shlex_escape_def
      shlex_escapedquotes_def char_defs)

lemma in_shlex_quotes: "c \<in> shlex_quotes \<longleftrightarrow> c = SQ \<or> c = DQ"
  by (auto simp: shlex_quotes_def)

lemma in_shlex_escape: "c \<in> shlex_escape \<longleftrightarrow> c = BSL"
  by (simp add: shlex_escape_def)

lemma in_shlex_escapedquotes: "c \<in> shlex_escapedquotes \<longleftrightarrow> c = DQ"
  by (simp add: shlex_escapedquotes_def)

lemma read_tokens_esc_irrelevant:
  assumes "\<And>e. st \<noteq> St_escape e"
  shows "read_tokens st esc tok q s = read_tokens st esc' tok q s"
  using assms
proof (induction s arbitrary: st esc esc' tok q)
  case Nil
  then show ?case by (cases st) simp_all
next
  case (Cons c cs)
  have sp: "\<And>x y t b. read_tokens St_space x t b cs = read_tokens St_space y t b cs"
    by (rule Cons.IH) simp
  have wd: "\<And>x y t b. read_tokens St_a x t b cs = read_tokens St_a y t b cs"
    by (rule Cons.IH) simp
  have qt: "\<And>k x y t b. read_tokens (St_quote k) x t b cs = read_tokens (St_quote k) y t b cs"
    by (rule Cons.IH) simp
  show ?case
  proof (cases st)
    case St_space
    then show ?thesis
      by (simp add: sp [of esc _ _ esc'] wd [of esc _ _ esc'] qt [of _ esc _ _ esc'])
  next
    case St_a
    then show ?thesis
      by (simp add: sp [of esc _ _ esc'] wd [of esc _ _ esc'] qt [of _ esc _ _ esc'])
  next
    case (St_quote k)
    then show ?thesis
      by (simp add: wd [of esc _ _ esc'] qt [of _ esc _ _ esc'])
  next
    case (St_escape e)
    with Cons.prems [of e] show ?thesis by simp
  qed
qed


lemma read_tokens_norm:
  "read_tokens St_a esc tok q s = read_tokens St_a St_space tok q s"
  by (rule read_tokens_esc_irrelevant) simp

lemma read_tokens_dq_body:
  assumes "list_all wf_dq ps"
  shows "read_tokens (St_quote DQ) esc tok q (concat (map render_dq ps) @ DQ # rest)
           = read_tokens St_a St_space (tok @ concat (map denote_dq ps)) True rest"
  using assms
proof (induction ps arbitrary: esc tok q)
  case Nil
  show ?case by (simp add: read_tokens_norm [of esc])
next
  case (Cons p ps)
  from Cons.prems have ps: "list_all wf_dq ps" and p: "wf_dq p" by simp_all
  show ?case
  proof (cases p)
    case (DqChar c)
    with p have c: "c \<noteq> DQ" "c \<noteq> BSL" by simp_all
    have "read_tokens (St_quote DQ) esc tok q (concat (map render_dq (p # ps)) @ DQ # rest)
            = read_tokens (St_quote DQ) esc (tok @ [c]) True (concat (map render_dq ps) @ DQ # rest)"
      using c by (simp add: DqChar in_shlex_escape)
    also have "\<dots> = read_tokens St_a St_space ((tok @ [c]) @ concat (map denote_dq ps)) True rest"
      using ps by (rule Cons.IH)
    finally show ?thesis by (simp add: DqChar)
  next
    case (DqEsc c)
    let ?tok = "(if c \<noteq> BSL \<and> c \<noteq> DQ then tok @ [BSL] else tok) @ [c]"
    have "read_tokens (St_quote DQ) esc tok q (concat (map render_dq (p # ps)) @ DQ # rest)
            = read_tokens (St_quote DQ) (St_quote DQ) ?tok True
                (concat (map render_dq ps) @ DQ # rest)"
      by (simp add: DqEsc in_shlex_escape in_shlex_escapedquotes shlex_char_facts)
    also have "\<dots> = read_tokens St_a St_space (?tok @ concat (map denote_dq ps)) True rest"
      using ps by (rule Cons.IH)
    finally show ?thesis by (simp add: DqEsc)
  qed
qed

lemma read_tokens_sq_body:
  assumes "SQ \<notin> set t"
  shows "read_tokens (St_quote SQ) esc tok q (t @ SQ # rest)
           = read_tokens St_a St_space (tok @ t) True rest"
  using assms
proof (induction t arbitrary: tok q)
  case Nil
  show ?case by (simp add: read_tokens_norm [of esc])
next
  case (Cons c t)
  from Cons.prems have c: "c \<noteq> SQ" and t: "SQ \<notin> set t" by auto
  have "read_tokens (St_quote SQ) esc tok q ((c # t) @ SQ # rest)
          = read_tokens (St_quote SQ) esc (tok @ [c]) True (t @ SQ # rest)"
    using c by (simp add: in_shlex_escapedquotes shlex_char_facts)
  also have "\<dots> = read_tokens St_a St_space ((tok @ [c]) @ t) True rest"
    using t by (rule Cons.IH)
  finally show ?case by simp
qed

lemma read_tokens_part:
  assumes "wf_part p"
  shows "read_tokens St_a esc tok q (render_part p @ rest)
           = read_tokens St_a St_space (tok @ denote_part p) (q \<or> part_quoted p) rest"
proof (cases p)
  case (Plain c)
  with assms show ?thesis
    by (simp add: in_shlex_quotes in_shlex_escape read_tokens_norm [of esc])
next
  case (Escaped c)
  show ?thesis
    by (simp add: Escaped in_shlex_quotes in_shlex_escape shlex_char_facts
        read_tokens_norm [of St_a])
next
  case (SingleQuoted t)
  with assms have t: "SQ \<notin> set t" by simp
  have "read_tokens St_a esc tok q (render_part p @ rest)
          = read_tokens (St_quote SQ) esc tok q (t @ SQ # rest)"
    by (simp add: SingleQuoted shlex_char_facts)
  also have "\<dots> = read_tokens St_a St_space (tok @ t) True rest"
    using t by (rule read_tokens_sq_body)
  finally show ?thesis by (simp add: SingleQuoted)
next
  case (DoubleQuoted ps)
  with assms have ps: "list_all wf_dq ps" by simp
  have "read_tokens St_a esc tok q (render_part p @ rest)
          = read_tokens (St_quote DQ) esc tok q (concat (map render_dq ps) @ DQ # rest)"
    by (simp add: DoubleQuoted shlex_char_facts)
  also have "\<dots> = read_tokens St_a St_space (tok @ concat (map denote_dq ps)) True rest"
    using ps by (rule read_tokens_dq_body)
  finally show ?thesis by (simp add: DoubleQuoted)
qed

lemma read_tokens_parts:
  assumes "list_all wf_part parts"
  shows "read_tokens St_a esc tok q (render_word parts @ rest)
           = read_tokens St_a St_space (tok @ denote_word parts)
               (q \<or> list_ex part_quoted parts) rest"
  using assms
proof (induction parts arbitrary: esc tok q)
  case Nil
  show ?case by (simp add: render_word_def denote_word_def read_tokens_norm [of esc])
next
  case (Cons p parts)
  from Cons.prems have p: "wf_part p" and ps: "list_all wf_part parts" by simp_all
  have "read_tokens St_a esc tok q (render_word (p # parts) @ rest)
          = read_tokens St_a esc tok q (render_part p @ (render_word parts @ rest))"
    by (simp add: render_word_def)
  also have "\<dots> = read_tokens St_a St_space (tok @ denote_part p) (q \<or> part_quoted p)
                      (render_word parts @ rest)"
    using p by (rule read_tokens_part)
  also have "\<dots> = read_tokens St_a St_space ((tok @ denote_part p) @ denote_word parts)
                      ((q \<or> part_quoted p) \<or> list_ex part_quoted parts) rest"
    using ps by (rule Cons.IH)
  finally show ?case by (simp add: denote_word_def)
qed


lemma read_tokens_space_to_word:
  assumes "c \<notin> shlex_whitespace"
  shows "read_tokens St_space esc [] q (c # cs) = read_tokens St_a esc [] q (c # cs)"
  using assms by (auto simp: in_shlex_escape in_shlex_quotes shlex_char_facts)

lemma render_part_first:
  assumes "wf_part p"
  obtains c cs where "render_part p = c # cs" and "c \<notin> shlex_whitespace"
  using assms by (cases p) (auto simp: shlex_char_facts)

lemma word_is_emitted:
  assumes "wf_word parts"
  shows "denote_word parts \<noteq> [] \<or> list_ex part_quoted parts"
proof -
  from assms obtain p ps where parts: "parts = p # ps"
    by (cases parts) (auto simp: wf_word_def)
  show ?thesis by (cases p) (simp_all add: parts denote_word_def)
qed

lemma read_tokens_word:
  assumes "wf_word parts"
  shows "read_tokens St_space esc [] False (render_word parts @ rest)
           = read_tokens St_a St_space (denote_word parts) (list_ex part_quoted parts) rest"
proof -
  from assms obtain p ps where parts: "parts = p # ps" and wf: "list_all wf_part parts"
    by (cases parts) (auto simp: wf_word_def)
  from wf parts have "wf_part p" by simp
  then obtain c cs where r: "render_part p = c # cs" and c: "c \<notin> shlex_whitespace"
    by (rule render_part_first)
  have "render_word parts @ rest = c # (cs @ render_word ps @ rest)"
    by (simp add: parts render_word_def r)
  then have "read_tokens St_space esc [] False (render_word parts @ rest)
          = read_tokens St_a esc [] False (render_word parts @ rest)"
    using c by (simp del: read_tokens.simps add: read_tokens_space_to_word)
  also have "\<dots> = read_tokens St_a St_space ([] @ denote_word parts)
                      (False \<or> list_ex part_quoted parts) rest"
    using wf by (rule read_tokens_parts)
  finally show ?thesis by simp
qed

lemma read_tokens_skip_whitespace:
  assumes "all_whitespace lead"
  shows "read_tokens St_space esc [] False (lead @ s) = read_tokens St_space esc [] False s"
  using assms by (induction lead) (simp_all add: all_whitespace_def)

lemma read_tokens_line:
  assumes "wf_line items"
  shows "read_tokens St_space esc [] False (render_line items)
           = Inr (map (\<lambda>(parts, sep). denote_word parts) items)"
  using assms
proof (induction items arbitrary: esc)
  case Nil
  show ?case by simp
next
  case (Cons item items)
  obtain parts sep where item: "item = (parts, sep)" by (cases item)
  from Cons.prems item have w: "wf_word parts" and s: "all_whitespace sep"
    and e: "sep \<noteq> [] \<or> items = []" and l: "wf_line items"
    by simp_all
  let ?tok = "denote_word parts"
  let ?q = "list_ex part_quoted parts"
  from w have emits: "?tok \<noteq> [] \<or> ?q" by (rule word_is_emitted)
  have start: "read_tokens St_space esc [] False (render_line (item # items))
          = read_tokens St_a St_space ?tok ?q (sep @ render_line items)"
    using read_tokens_word [OF w, of esc "sep @ render_line items"] by (simp add: item)
  show ?case
  proof (cases sep)
    case Nil
    with e have "items = []" by simp
    with Nil start emits show ?thesis by (auto simp: item)
  next
    case (Cons c sep')
    with s have c: "c \<in> shlex_whitespace" and s': "all_whitespace sep'"
      by (simp_all add: all_whitespace_def)
    have "read_tokens St_a St_space ?tok ?q (sep @ render_line items)
            = emit ?tok (read_tokens St_space St_space [] False (sep' @ render_line items))"
      using c emits by (auto simp: Cons)
    also have "read_tokens St_space St_space [] False (sep' @ render_line items)
            = read_tokens St_space St_space [] False (render_line items)"
      using s' by (rule read_tokens_skip_whitespace)
    also have "\<dots> = Inr (map (\<lambda>(parts, sep). denote_word parts) items)"
      using l by (rule Cons.IH)
    finally show ?thesis using start by (simp add: emit_def item)
  qed
qed

lemma shlex_split_line:
  assumes "all_whitespace lead" and "wf_line items"
  shows "shlex_split (lead @ render_line items)
           = Inr (map (\<lambda>(parts, sep). denote_word parts) items)"
  unfolding shlex_split_def
  using read_tokens_skip_whitespace [OF assms(1)] read_tokens_line [OF assms(2)]
  by simp

lemma line_form_Nil: "line_form []"
  unfolding line_form_def
  by (rule exI [of _ "[]"], rule exI [of _ "[]"]) (simp add: all_whitespace_def)

lemma line_form_ws:
  assumes "c \<in> shlex_whitespace" and "line_form s"
  shows "line_form (c # s)"
proof -
  from assms(2) obtain lead items where
    "all_whitespace lead" "wf_line items" "s = lead @ render_line items"
    unfolding line_form_def by blast
  with assms(1) have "all_whitespace (c # lead) \<and> wf_line items
      \<and> c # s = (c # lead) @ render_line items"
    by (simp add: all_whitespace_def)
  then show ?thesis unfolding line_form_def by blast
qed

lemma word_rest_Nil: "word_rest_form []"
  unfolding word_rest_form_def
  by (rule exI [of _ "[]"], rule exI [of _ "[]"]) (simp add: tail_form_def render_word_def)

lemma word_rest_ws:
  assumes "c \<in> shlex_whitespace" and "line_form s"
  shows "word_rest_form (c # s)"
proof -
  from assms have "tail_form (c # s)" by (simp add: tail_form_def)
  then have "list_all wf_part [] \<and> tail_form (c # s) \<and> c # s = render_word [] @ (c # s)"
    by (simp add: render_word_def)
  then show ?thesis unfolding word_rest_form_def by blast
qed

lemma word_rest_part:
  assumes "wf_part p" and "word_rest_form s"
  shows "word_rest_form (render_part p @ s)"
proof -
  from assms(2) obtain parts t where
    "list_all wf_part parts" "tail_form t" "s = render_word parts @ t"
    unfolding word_rest_form_def by blast
  with assms(1) have "list_all wf_part (p # parts) \<and> tail_form t
      \<and> render_part p @ s = render_word (p # parts) @ t"
    by (simp add: render_word_def)
  then show ?thesis unfolding word_rest_form_def by blast
qed

lemma line_of_word:
  assumes "wf_part p" and "word_rest_form s"
  shows "line_form (render_part p @ s)"
proof -
  from assms(2) obtain parts t where
    parts: "list_all wf_part parts" and t: "tail_form t" and s: "s = render_word parts @ t"
    unfolding word_rest_form_def by blast
  from assms(1) parts have w: "wf_word (p # parts)" by (simp add: wf_word_def)
  have r: "render_part p @ s = render_word (p # parts) @ t"
    by (simp add: s render_word_def)
  from t show ?thesis unfolding tail_form_def
  proof
    assume "t = []"
    with w r have "all_whitespace [] \<and> wf_line [(p # parts, [])]
        \<and> render_part p @ s = [] @ render_line [(p # parts, [])]"
      by (simp add: all_whitespace_def)
    then show ?thesis unfolding line_form_def by blast
  next
    assume "\<exists>c rest. t = c # rest \<and> c \<in> shlex_whitespace \<and> line_form rest"
    then obtain c rest lead items where
      tc: "t = c # rest" and c: "c \<in> shlex_whitespace"
      and lead: "all_whitespace lead" and items: "wf_line items"
      and rest: "rest = lead @ render_line items"
      unfolding line_form_def by blast
    from w c lead items have "all_whitespace [] \<and> wf_line ((p # parts, c # lead) # items)"
      by (simp add: all_whitespace_def)
    moreover have "render_part p @ s = [] @ render_line ((p # parts, c # lead) # items)"
      by (simp add: r tc rest)
    ultimately show ?thesis unfolding line_form_def by blast
  qed
qed

lemma sq_rest_close: "word_rest_form s \<Longrightarrow> sq_rest_form (SQ # s)"
  unfolding sq_rest_form_def
  by (rule exI [of _ "[]"], rule exI [of _ s]) simp

lemma sq_rest_char:
  assumes "c \<noteq> SQ" and "sq_rest_form s"
  shows "sq_rest_form (c # s)"
proof -
  from assms(2) obtain x t where "SQ \<notin> set x" "word_rest_form t" "s = x @ SQ # t"
    unfolding sq_rest_form_def by blast
  with assms(1) have "SQ \<notin> set (c # x) \<and> word_rest_form t \<and> c # s = (c # x) @ SQ # t"
    by auto
  then show ?thesis unfolding sq_rest_form_def by blast
qed

lemma dq_rest_close: "word_rest_form s \<Longrightarrow> dq_rest_form (DQ # s)"
  unfolding dq_rest_form_def
  by (rule exI [of _ "[]"], rule exI [of _ s]) simp

lemma dq_rest_part:
  assumes "wf_dq p" and "dq_rest_form s"
  shows "dq_rest_form (render_dq p @ s)"
proof -
  from assms(2) obtain ps t where
    "list_all wf_dq ps" "word_rest_form t" "s = concat (map render_dq ps) @ DQ # t"
    unfolding dq_rest_form_def by blast
  with assms(1) have "list_all wf_dq (p # ps) \<and> word_rest_form t
      \<and> render_dq p @ s = concat (map render_dq (p # ps)) @ DQ # t"
    by simp
  then show ?thesis unfolding dq_rest_form_def by blast
qed

lemma sq_rest_part:
  assumes "sq_rest_form s"
  obtains x t where "SQ \<notin> set x" and "word_rest_form t" and "SQ # s = render_part (SingleQuoted x) @ t"
  using assms unfolding sq_rest_form_def by auto

lemma dq_rest_whole:
  assumes "dq_rest_form s"
  obtains ps t where "list_all wf_dq ps" and "word_rest_form t"
    and "DQ # s = render_part (DoubleQuoted ps) @ t"
  using assms unfolding dq_rest_form_def by auto


lemma emit_Inr: "emit t r = Inr ts \<Longrightarrow> \<exists>ts'. r = Inr ts'"
  by (cases r) (simp_all add: emit_def)

lemma word_start_cases:
  assumes ih: "\<And>st esc tok q ts. read_tokens st esc tok q cs = Inr ts \<Longrightarrow> state_form st esc cs"
    and c: "c \<notin> shlex_whitespace"
    and run: "read_tokens St_a esc tok q (c # cs) = Inr ts"
  obtains p t where "wf_part p" and "word_rest_form t" and "c # cs = render_part p @ t"
proof (cases "c = SQ")
  case True
  with run have "read_tokens (St_quote SQ) esc tok q cs = Inr ts"
    by (simp add: shlex_char_facts)
  then have "state_form (St_quote SQ) esc cs" by (rule ih)
  then have "sq_rest_form cs" by simp
  then obtain x t where "SQ \<notin> set x" "word_rest_form t" "SQ # cs = render_part (SingleQuoted x) @ t"
    by (rule sq_rest_part)
  with True that [of "SingleQuoted x" t] show ?thesis by simp
next
  case notSQ: False
  show ?thesis
  proof (cases "c = DQ")
    case True
    with run have "read_tokens (St_quote DQ) esc tok q cs = Inr ts"
      by (simp add: shlex_char_facts)
    then have "state_form (St_quote DQ) esc cs" by (rule ih)
    then have "dq_rest_form cs" by (simp add: shlex_char_facts)
    then obtain ps t where "list_all wf_dq ps" "word_rest_form t"
      "DQ # cs = render_part (DoubleQuoted ps) @ t"
      by (rule dq_rest_whole)
    with True that [of "DoubleQuoted ps" t] show ?thesis by simp
  next
    case notDQ: False
    show ?thesis
    proof (cases "c = BSL")
      case True
      with run have "read_tokens (St_escape BSL) St_a tok q cs = Inr ts"
        by (simp add: shlex_char_facts in_shlex_escape)
      then have "state_form (St_escape BSL) St_a cs" by (rule ih)
      then obtain c' rest where "cs = c' # rest" "word_rest_form rest" by auto
      with True that [of "Escaped c'" rest] show ?thesis by simp
    next
      case False
      with run c notSQ notDQ have "read_tokens St_a esc (tok @ [c]) q cs = Inr ts"
        by (simp add: in_shlex_quotes in_shlex_escape)
      then have "state_form St_a esc cs" by (rule ih)
      then have "word_rest_form cs" by simp
      with c notSQ notDQ False that [of "Plain c" cs] show ?thesis by simp
    qed
  qed
qed


lemma read_tokens_form:
  assumes "read_tokens st esc tok q s = Inr ts"
  shows "state_form st esc s"
  using assms
proof (induction s arbitrary: st esc tok q ts)
  case Nil
  then show ?case
    by (cases st) (simp_all add: line_form_Nil word_rest_Nil)
next
  case (Cons c cs)
  note ih = Cons.IH
  note run = Cons.prems
  show ?case
  proof (cases st)
    case St_space
    show ?thesis
    proof (cases "c \<in> shlex_whitespace")
      case True
      with run St_space have "\<exists>e t b ts'. read_tokens St_space e t b cs = Inr ts'"
        by (auto split: if_splits dest!: emit_Inr)
      then obtain e t b ts' where "read_tokens St_space e t b cs = Inr ts'" by blast
      then have "state_form St_space e cs" by (rule ih)
      then have "line_form cs" by simp
      with True have "line_form (c # cs)" by (rule line_form_ws)
      with St_space show ?thesis by simp
    next
      case False
      with run St_space
      have "\<exists>t. read_tokens St_a esc t q (c # cs) = Inr ts"
        by (auto simp: in_shlex_quotes in_shlex_escape shlex_char_facts split: if_splits
            intro: exI [of _ "[]"])
      then obtain t where "read_tokens St_a esc t q (c # cs) = Inr ts" by blast
      with ih False obtain p r where "wf_part p" "word_rest_form r" "c # cs = render_part p @ r"
        by (rule word_start_cases)
      then have "line_form (c # cs)" by (simp add: line_of_word)
      with St_space show ?thesis by simp
    qed
  next
    case St_a
    show ?thesis
    proof (cases "c \<in> shlex_whitespace")
      case True
      with run St_a have "\<exists>e t b ts'. read_tokens St_space e t b cs = Inr ts'"
        by (auto split: if_splits dest!: emit_Inr)
      then obtain e t b ts' where "read_tokens St_space e t b cs = Inr ts'" by blast
      then have "state_form St_space e cs" by (rule ih)
      then have "line_form cs" by simp
      with True have "word_rest_form (c # cs)" by (rule word_rest_ws)
      with St_a show ?thesis by simp
    next
      case False
      from run St_a have "read_tokens St_a esc tok q (c # cs) = Inr ts" by simp
      with ih False obtain p r where "wf_part p" "word_rest_form r" "c # cs = render_part p @ r"
        by (rule word_start_cases)
      then have "word_rest_form (c # cs)" by (simp add: word_rest_part)
      with St_a show ?thesis by simp
    qed
  next
    case (St_quote k)
    show ?thesis
    proof (cases "k = SQ")
      case True
      show ?thesis
      proof (cases "c = SQ")
        case cq: True
        with run St_quote True have "read_tokens St_a esc tok True cs = Inr ts" by simp
        then have "state_form St_a esc cs" by (rule ih)
        then have "sq_rest_form (SQ # cs)" by (simp add: sq_rest_close)
        with St_quote True cq show ?thesis by simp
      next
        case cq: False
        with run St_quote True
        have "read_tokens (St_quote SQ) esc (tok @ [c]) True cs = Inr ts"
          by (simp add: in_shlex_escapedquotes shlex_char_facts)
        then have "state_form (St_quote SQ) esc cs" by (rule ih)
        then have "sq_rest_form cs" by simp
        with cq have "sq_rest_form (c # cs)" by (rule sq_rest_char)
        with St_quote True show ?thesis by simp
      qed
    next
      case notSQ: False
      show ?thesis
      proof (cases "k = DQ")
        case True
        show ?thesis
        proof (cases "c = DQ")
          case cq: True
          with run St_quote True have "read_tokens St_a esc tok True cs = Inr ts" by simp
          then have "state_form St_a esc cs" by (rule ih)
          then have "dq_rest_form (DQ # cs)" by (simp add: dq_rest_close)
          with St_quote True cq notSQ show ?thesis by simp
        next
          case cq: False
          show ?thesis
          proof (cases "c = BSL")
            case cb: True
            with run St_quote True cq
            have "read_tokens (St_escape BSL) (St_quote DQ) tok True cs = Inr ts"
              by (simp add: in_shlex_escape in_shlex_escapedquotes)
            then have "state_form (St_escape BSL) (St_quote DQ) cs" by (rule ih)
            then obtain c' rest where cs: "cs = c' # rest" and r: "dq_rest_form rest" by auto
            have "wf_dq (DqEsc c')" by simp
            from this r have "dq_rest_form (render_dq (DqEsc c') @ rest)" by (rule dq_rest_part)
            with cs cb have "dq_rest_form (c # cs)" by simp
            with St_quote True notSQ show ?thesis by simp
          next
            case cb: False
            with run St_quote True cq
            have "read_tokens (St_quote DQ) esc (tok @ [c]) True cs = Inr ts"
              by (simp add: in_shlex_escape)
            then have "state_form (St_quote DQ) esc cs" by (rule ih)
            then have r: "dq_rest_form cs" by (simp add: shlex_char_facts)
            from cq cb have "wf_dq (DqChar c)" by simp
            from this r have "dq_rest_form (render_dq (DqChar c) @ cs)" by (rule dq_rest_part)
            then have "dq_rest_form (c # cs)" by simp
            with St_quote True notSQ show ?thesis by simp
          qed
        qed
      next
        case False
        with St_quote notSQ show ?thesis by simp
      qed
    qed
  next
    case (St_escape e)
    from run St_escape obtain t where next_run: "read_tokens esc esc t q cs = Inr ts"
      by (auto simp: Let_def)
    then have f: "state_form esc esc cs" by (rule ih)
    show ?thesis
    proof (cases esc)
      case St_a
      with f have "word_rest_form cs" by simp
      with St_escape St_a show ?thesis by simp
    next
      case (St_quote k)
      with f St_escape show ?thesis by (auto simp: shlex_char_facts)
    next
      case St_space
      with St_escape show ?thesis by simp
    next
      case (St_escape e')
      with \<open>st = St_escape e\<close> show ?thesis by simp
    qed
  qed
qed

lemma shlex_split_Inl:
  "read_tokens st esc tok q s = Inl m \<Longrightarrow>
     m = ''No closing quotation'' \<or> m = ''No escaped character''"
proof (induction st esc tok q s arbitrary: m rule: read_tokens.induct)
  case (1 st esc tok quoted)
  then show ?case by (cases st) simp_all
next
  case (2 esc tok quoted c cs)
  then show ?case
    by (auto simp: emit_def split: if_splits sum.splits)
next
  case (3 q esc tok quoted c cs)
  then show ?case by (auto split: if_splits)
next
  case (4 e esc tok quoted c cs)
  then show ?case by (auto simp: Let_def)
next
  case (5 esc tok quoted c cs)
  then show ?case
    by (auto simp: emit_def split: if_splits sum.splits)
qed

lemma shlex_split_complete:
  "shlex_split s = Inl ''No closing quotation'' \<or> shlex_split s = Inl ''No escaped character''
   \<or> (\<exists>lead items. all_whitespace lead \<and> wf_line items \<and> s = lead @ render_line items)"
proof (cases "shlex_split s")
  case (Inl m)
  then have "m = ''No closing quotation'' \<or> m = ''No escaped character''"
    unfolding shlex_split_def by (rule shlex_split_Inl)
  with Inl show ?thesis by auto
next
  case (Inr ts)
  then have "state_form St_space St_space s"
    unfolding shlex_split_def by (rule read_tokens_form)
  then show ?thesis by (simp add: line_form_def)
qed

lemma split_acc_run:
  "split_acc cur s =
     (if cur @ takeWhile (\<lambda>x. \<not> is_space x) s = []
      then split_acc [] (dropWhile (\<lambda>x. \<not> is_space x) s)
      else (cur @ takeWhile (\<lambda>x. \<not> is_space x) s)
             # split_acc [] (dropWhile (\<lambda>x. \<not> is_space x) s))"
proof (induction s arbitrary: cur)
  case Nil
  show ?case by simp
next
  case (Cons c s)
  show ?case
  proof (cases "is_space c")
    case True
    then show ?thesis by simp
  next
    case False
    then show ?thesis using Cons.IH [of "cur @ [c]"] by simp
  qed
qed

lemma split_acc_skip: "split_acc [] s = split_acc [] (dropWhile is_space s)"
  by (induction s) simp_all

lemma split_ws_runs: "split_ws s = whitespace_runs s"
  unfolding split_ws_def
proof (induction s rule: whitespace_runs.induct)
  case (1 s)
  show ?case
  proof (cases "dropWhile is_space s")
    case Nil
    have "split_acc [] s = split_acc [] (dropWhile is_space s)" by (rule split_acc_skip)
    also have "\<dots> = []" unfolding Nil by simp
    finally have l: "split_acc [] s = []" .
    have r: "whitespace_runs s = []"
      unfolding whitespace_runs.simps [of s] Nil by simp
    from l r show ?thesis by simp
  next
    case (Cons c cs)
    have "dropWhile is_space s \<noteq> []" using Cons by simp
    then have "\<not> is_space (hd (dropWhile is_space s))" by (rule hd_dropWhile)
    with Cons have c: "\<not> is_space c" by simp
    have "split_acc [] s = split_acc [] (dropWhile is_space s)" by (rule split_acc_skip)
    also have "\<dots> = split_acc [] (c # cs)" unfolding Cons ..
    also have "\<dots> = takeWhile (\<lambda>x. \<not> is_space x) (c # cs)
                      # split_acc [] (dropWhile (\<lambda>x. \<not> is_space x) (c # cs))"
      using c by (subst split_acc_run) simp
    also have "split_acc [] (dropWhile (\<lambda>x. \<not> is_space x) (c # cs))
                 = whitespace_runs (dropWhile (\<lambda>x. \<not> is_space x) (c # cs))"
      using Cons by (rule "1.IH")
    finally have l: "split_acc [] s = takeWhile (\<lambda>x. \<not> is_space x) (c # cs)
                      # whitespace_runs (dropWhile (\<lambda>x. \<not> is_space x) (c # cs))" .
    have r: "whitespace_runs s = takeWhile (\<lambda>x. \<not> is_space x) (c # cs)
                      # whitespace_runs (dropWhile (\<lambda>x. \<not> is_space x) (c # cs))"
      by (subst whitespace_runs.simps) (simp only: Cons list.case)
    from l r show ?thesis by simp
  qed
qed

lemma split_acc_tokens:
  assumes "t \<in> set (split_acc cur s)"
    and "list_all (\<lambda>c. \<not> is_space c) cur"
  shows "t \<noteq> [] \<and> list_all (\<lambda>c. \<not> is_space c) t"
  using assms
proof (induction s arbitrary: cur)
  case Nil
  then show ?case by (auto split: if_splits)
next
  case (Cons a s)
  show ?case
  proof (cases "is_space a")
    case True
    with Cons.prems have "(t = cur \<and> cur \<noteq> []) \<or> t \<in> set (split_acc [] s)"
      by (auto split: if_splits)
    then show ?thesis
    proof
      assume "t = cur \<and> cur \<noteq> []"
      with Cons.prems show ?thesis by simp
    next
      assume "t \<in> set (split_acc [] s)"
      then show ?thesis by (rule Cons.IH) simp
    qed
  next
    case False
    with Cons.prems have "t \<in> set (split_acc (cur @ [a]) s)" by simp
    then show ?thesis
      by (rule Cons.IH) (use False Cons.prems in simp)
  qed
qed

lemma split_acc_concat:
  "concat (split_acc cur s) = cur @ filter (\<lambda>c. \<not> is_space c) s"
  by (induction s arbitrary: cur) simp_all

lemma split_ws_tokens:
  "(\<forall>t\<in>set (split_ws s). t \<noteq> [] \<and> (\<forall>c\<in>set t. \<not> is_space c))
   \<and> concat (split_ws s) = filter (\<lambda>c. \<not> is_space c) s"
proof
  show "\<forall>t\<in>set (split_ws s). t \<noteq> [] \<and> (\<forall>c\<in>set t. \<not> is_space c)"
  proof
    fix t
    assume "t \<in> set (split_ws s)"
    then have "t \<in> set (split_acc [] s)" by (simp add: split_ws_def)
    then have "t \<noteq> [] \<and> list_all (\<lambda>c. \<not> is_space c) t"
      by (rule split_acc_tokens) simp
    then show "t \<noteq> [] \<and> (\<forall>c\<in>set t. \<not> is_space c)" by (simp add: list_all_iff)
  qed
next
  show "concat (split_ws s) = filter (\<lambda>c. \<not> is_space c) s"
    by (simp add: split_ws_def split_acc_concat)
qed

text \<open>
  C5. A command given as one string, with shell mode off, is split by \<^verbatim>\<open>shlex.split\<close>
  on a POSIX platform and by \<^verbatim>\<open>str.split()\<close> on Windows. On a POSIX platform every
  well-formed line is split into the arguments its words stand for: a quoted text is part
  of one token whatever whitespace it holds, quotes are removed and backslashes are
  honoured. Every string is either such a line or has an unclosed quote or a backslash at
  its end, and then the split raises \<^verbatim>\<open>ValueError\<close>. On Windows the tokens are the
  maximal runs of characters that are not whitespace: no token holds whitespace, and every
  other character, the quotes included, stays in the tokens.
\<close>

theorem tokenize_raw_string:
  "(\<not> IS_WINDOWS w \<and> all_whitespace lead \<and> wf_line items \<longrightarrow>
      tokenize w (CmdStr (lead @ render_line items)) False
        = Inr (CmdList (map (\<lambda>(parts, sep). denote_word parts) items)))
   \<and> (\<not> IS_WINDOWS w \<longrightarrow>
        tokenize w (CmdStr s) False = Inl (ValueError ''No closing quotation'')
      \<or> tokenize w (CmdStr s) False = Inl (ValueError ''No escaped character'')
      \<or> (\<exists>lead items. all_whitespace lead \<and> wf_line items \<and> s = lead @ render_line items))
   \<and> (IS_WINDOWS w \<longrightarrow> tokenize w (CmdStr s) False = Inr (CmdList (whitespace_runs s)))
   \<and> (\<forall>t\<in>set (whitespace_runs s). t \<noteq> [] \<and> (\<forall>c\<in>set t. \<not> is_space c))
   \<and> concat (whitespace_runs s) = filter (\<lambda>c. \<not> is_space c) s"
proof (intro conjI impI)
  assume "\<not> IS_WINDOWS w \<and> all_whitespace lead \<and> wf_line items"
  then have p: "\<not> IS_WINDOWS w" and l: "all_whitespace lead" and i: "wf_line items"
    by simp_all
  from l i have "shlex_split (lead @ render_line items)
           = Inr (map (\<lambda>(parts, sep). denote_word parts) items)"
    by (rule shlex_split_line)
  with p show "tokenize w (CmdStr (lead @ render_line items)) False
        = Inr (CmdList (map (\<lambda>(parts, sep). denote_word parts) items))"
    by (simp add: tokenize_def)
next
  assume p: "\<not> IS_WINDOWS w"
  from shlex_split_complete [of s] p
  show "tokenize w (CmdStr s) False = Inl (ValueError ''No closing quotation'')
      \<or> tokenize w (CmdStr s) False = Inl (ValueError ''No escaped character'')
      \<or> (\<exists>lead items. all_whitespace lead \<and> wf_line items \<and> s = lead @ render_line items)"
    by (auto simp: tokenize_def)
next
  assume "IS_WINDOWS w"
  then show "tokenize w (CmdStr s) False = Inr (CmdList (whitespace_runs s))"
    by (simp add: tokenize_def split_ws_runs)
next
  show "\<forall>t\<in>set (whitespace_runs s). t \<noteq> [] \<and> (\<forall>c\<in>set t. \<not> is_space c)"
    using split_ws_tokens [of s] by (simp add: split_ws_runs)
next
  show "concat (whitespace_runs s) = filter (\<lambda>c. \<not> is_space c) s"
    using split_ws_tokens [of s] by (simp add: split_ws_runs)
qed

theorem tokenize_raw_string_witness:
  "\<not> IS_WINDOWS example_world
   \<and> all_whitespace []
   \<and> wf_line echo_line
   \<and> [] @ render_line echo_line = ''echo '' @ [DQ] @ ''a b'' @ [DQ]
   \<and> tokenize example_world (CmdStr (''echo '' @ [DQ] @ ''a b'' @ [DQ])) False
       = Inr (CmdList [''echo'', ''a b''])
   \<and> IS_WINDOWS windows_world
   \<and> tokenize windows_world (CmdStr (''echo '' @ [DQ] @ ''a b'' @ [DQ])) False
       = Inr (CmdList [''echo'', [DQ] @ ''a'', ''b'' @ [DQ]])
   \<and> whitespace_runs (''echo '' @ [DQ] @ ''a b'' @ [DQ]) = [''echo'', [DQ] @ ''a'', ''b'' @ [DQ]]"
proof -
  let ?s = "''echo '' @ [DQ] @ ''a b'' @ [DQ]"
  have p: "\<not> IS_WINDOWS example_world" by (simp add: example_world_def)
  have q: "IS_WINDOWS windows_world" by (simp add: windows_world_def)
  have l: "all_whitespace []" by (simp add: all_whitespace_def)
  have i: "wf_line echo_line"
    by (simp add: echo_line_def wf_word_def all_whitespace_def shlex_whitespace_def char_defs)
  have r: "[] @ render_line echo_line = ?s"
    by (simp add: echo_line_def render_word_def)
  have d: "map (\<lambda>(parts, sep). denote_word parts) echo_line = [''echo'', ''a b'']"
    by (simp add: echo_line_def denote_word_def char_defs)
  note u1 = tokenize_raw_string [of example_world "[]" echo_line ?s]
  note u2 = tokenize_raw_string [of windows_world "[]" echo_line ?s]
  from u1 p l i have "tokenize example_world (CmdStr ([] @ render_line echo_line)) False
        = Inr (CmdList (map (\<lambda>(parts, sep). denote_word parts) echo_line))"
    by blast
  then have t1: "tokenize example_world (CmdStr ?s) False = Inr (CmdList [''echo'', ''a b''])"
    unfolding r d .
  have e2: "tokenize windows_world (CmdStr ?s) False
       = Inr (CmdList [''echo'', [DQ] @ ''a'', ''b'' @ [DQ]])"
    by (simp add: tokenize_def windows_world_def split_ws_def is_space_def char_defs)
  from u2 q have "tokenize windows_world (CmdStr ?s) False = Inr (CmdList (whitespace_runs ?s))"
    by blast
  with e2 have w: "whitespace_runs ?s = [''echo'', [DQ] @ ''a'', ''b'' @ [DQ]]"
    by simp
  from p l i r t1 q e2 w show ?thesis by simp
qed

end
